theory Spec2Isabelle
  imports Complex_Main
begin

section \<open>Values and strings of the host language\<close>

text \<open>
  The records that reach \<open>getVideosData\<close> are parsed JSON, and the code guards every
  member with \<open>typeof\<close>, \<open>||\<close> and \<open>String(...)\<close>. A member is therefore modelled as
  a value of \<open>jsval\<close>. Numbers are the integral ones (engagement counters, durations in
  milliseconds, epoch timestamps); strings are lists of code units below 256, so that
  \<open>length\<close> is the \<open>.length\<close> of the source on them.
\<close>

datatype jsval = JUndefined | JNull | JBool bool | JNum int | JStr string

text \<open>Truthiness, as tested by \<open>if (x)\<close>, \<open>!x\<close> and \<open>x || y\<close>.\<close>

fun truthy :: "jsval \<Rightarrow> bool" where
  "truthy JUndefined = False"
| "truthy JNull = False"
| "truthy (JBool b) = b"
| "truthy (JNum n) = (n \<noteq> 0)"
| "truthy (JStr s) = (s \<noteq> [])"

definition js_or :: "jsval \<Rightarrow> jsval \<Rightarrow> jsval" where
  "js_or a b = (if truthy a then a else b)"

definition digitChar :: "nat \<Rightarrow> char" where
  "digitChar d = char_of (48 + d)"

fun showNat :: "nat \<Rightarrow> string" where
  "showNat n = (if n < 10 then [digitChar n] else showNat (n div 10) @ [digitChar (n mod 10)])"

definition showInt :: "int \<Rightarrow> string" where
  "showInt i = (if i < 0 then CHR ''-'' # showNat (nat (- i)) else showNat (nat i))"

text \<open>
  \<open>String(x)\<close>. A number is printed as its decimal digits, which is what the language
  prints for an integer of magnitude up to \<open>2^53\<close>; beyond that magnitude the language
  prints the shortest digits that denote the same double, and the statements below
  that depend on the digits of an id take the id to be a string.
\<close>

fun js_String :: "jsval \<Rightarrow> string" where
  "js_String JUndefined = ''undefined''"
| "js_String JNull = ''null''"
| "js_String (JBool b) = (if b then ''true'' else ''false'')"
| "js_String (JNum n) = showInt n"
| "js_String (JStr s) = s"

text \<open>
  \<open>trim\<close> removes the white space and line terminators of the language at both ends;
  below 256 these are the code units 9 to 13, 32 and 160. \<open>toLowerCase\<close> maps the
  capital letters below 256 (65 to 90, and 192 to 222 without 215) to the letter 32
  above and leaves every other code unit unchanged.
\<close>

definition isWhiteSpace :: "char \<Rightarrow> bool" where
  "isWhiteSpace c = (let n = (of_char c :: nat) in (9 \<le> n \<and> n \<le> 13) \<or> n = 32 \<or> n = 160)"

definition trim :: "string \<Rightarrow> string" where
  "trim s = rev (dropWhile isWhiteSpace (rev (dropWhile isWhiteSpace s)))"

definition lowerChar :: "char \<Rightarrow> char" where
  "lowerChar c = (let n = (of_char c :: nat) in
     if (65 \<le> n \<and> n \<le> 90) \<or> (192 \<le> n \<and> n \<le> 222 \<and> n \<noteq> 215) then char_of (n + 32) else c)"

definition toLowerCase :: "string \<Rightarrow> string" where
  "toLowerCase s = map lowerChar s"

definition isDigit :: "char \<Rightarrow> bool" where
  "isDigit c = (let n = (of_char c :: nat) in 48 \<le> n \<and> n \<le> 57)"

definition digitVal :: "char \<Rightarrow> int" where
  "digitVal c = int (of_char c) - 48"

text \<open>
  \<open>parseInt(s, 10)\<close>: leading white space is skipped, a sign is read, and the longest
  prefix of decimal digits is the value; \<open>None\<close> is \<open>NaN\<close>.
\<close>

definition parseInt :: "string \<Rightarrow> int option" where
  "parseInt s =
     (let t = dropWhile isWhiteSpace s;
          neg = (t \<noteq> [] \<and> hd t = CHR ''-'');
          u = (if t \<noteq> [] \<and> (hd t = CHR ''-'' \<or> hd t = CHR ''+'') then tl t else t);
          ds = takeWhile isDigit u
      in if ds = [] then None
         else (let v = foldl (\<lambda>a c. 10 * a + digitVal c) 0 ds in Some (if neg then - v else v)))"

text \<open>
  An exception is a value: \<open>Error msg\<close> stands for what a \<open>throw\<close> of the program or a
  rejected call of the datastore carries.
\<close>

datatype error = Error string

text \<open>
  \<open>x.substring(i, j)\<close> for \<open>x\<close> of any type: a string yields its code units from the
  lesser to the greater index; a value of another type has no such method, and the
  call raises a \<open>TypeError\<close>.
\<close>

definition substring :: "jsval \<Rightarrow> nat \<Rightarrow> nat \<Rightarrow> error + string" where
  "substring x i j =
     (case x of
        JStr s \<Rightarrow> Inr (take (max i j - min i j) (drop (min i j) s))
      | _ \<Rightarrow> Inl (Error ''TypeError: textContent.substring is not a function''))"

text \<open>\<open>Math.round\<close> on an exact quotient: the nearest integer, halves rounded up.\<close>

definition Math_round :: "rat \<Rightarrow> int" where
  "Math_round x = \<lfloor>x + 1 / 2\<rfloor>"

section \<open>Calendar arithmetic of \<open>Date\<close>\<close>

text \<open>
  Time values are milliseconds since the epoch. \<open>daysFromCivil\<close> is the day number of
  a proleptic Gregorian date (month 1 to 12), \<open>civilFromDays\<close> its inverse.
\<close>

definition msPerDay :: int where
  "msPerDay = 86400000"

definition maxTime :: int where
  "maxTime = 8640000000000000"

definition daysFromCivil :: "int \<Rightarrow> int \<Rightarrow> int \<Rightarrow> int" where
  "daysFromCivil y m d =
     (let y' = (if m \<le> 2 then y - 1 else y);
          era = y' div 400;
          yoe = y' - era * 400;
          mp = (if m > 2 then m - 3 else m + 9);
          doy = (153 * mp + 2) div 5 + d - 1;
          doe = yoe * 365 + yoe div 4 - yoe div 100 + doy
      in era * 146097 + doe - 719468)"

definition civilFromDays :: "int \<Rightarrow> int \<times> int \<times> int" where
  "civilFromDays z =
     (let z' = z + 719468;
          era = z' div 146097;
          doe = z' - era * 146097;
          yoe = (doe - doe div 1460 + doe div 36524 - doe div 146096) div 365;
          y = yoe + era * 400;
          doy = doe - (365 * yoe + yoe div 4 - yoe div 100);
          mp = (5 * doy + 2) div 153;
          d = doy - (153 * mp + 2) div 5 + 1;
          m = (if mp < 10 then mp + 3 else mp - 9)
      in (if m \<le> 2 then y + 1 else y, m, d))"

text \<open>
  \<open>Date.UTC(year, month, day)\<close>: a year from 0 to 99 means 1900 + year, the month
  (counted from 0) may lie outside 0 to 11 and carries into the year, the day may lie
  outside the month and carries into the following days. \<open>None\<close> is the invalid date.
\<close>

definition Date_UTC :: "int \<Rightarrow> int \<Rightarrow> int \<Rightarrow> int option" where
  "Date_UTC year month day =
     (let yr = (if 0 \<le> year \<and> year \<le> 99 then 1900 + year else year);
          ym = yr + month div 12;
          mn = month mod 12;
          t = (daysFromCivil ym (mn + 1) 1 + day - 1) * msPerDay
      in if \<bar>t\<bar> \<le> maxTime then Some t else None)"

definition getUTCFullYear :: "int \<Rightarrow> int" where
  "getUTCFullYear t = fst (civilFromDays (t div msPerDay))"

definition getUTCMonth :: "int \<Rightarrow> int" where
  "getUTCMonth t = fst (snd (civilFromDays (t div msPerDay))) - 1"

definition getUTCDate :: "int \<Rightarrow> int" where
  "getUTCDate t = snd (snd (civilFromDays (t div msPerDay)))"

text \<open>
  Two things of \<open>Date\<close> are fixed by the host and not by the program: the result of
  parsing a free-form date string (\<open>new Date(s).getTime()\<close>, \<open>None\<close> for \<open>NaN\<close>) and the
  offset of local time from UTC at a given instant. Both are parameters of the model.
\<close>

record dateEnv =
  Date_parse :: "string \<Rightarrow> int option"
  localTZA :: "int \<Rightarrow> int"

text \<open>\<open>new Date(ts).getFullYear()\<close>: the year in local time, \<open>None\<close> for \<open>NaN\<close>.\<close>

definition getFullYear :: "dateEnv \<Rightarrow> int \<Rightarrow> int option" where
  "getFullYear env ts =
     (if \<bar>ts\<bar> \<le> maxTime then Some (fst (civilFromDays ((ts + localTZA env ts) div msPerDay)))
      else None)"

section \<open>DateNormalizer\<close>

text \<open>The three tests on the raw string, in the order of the source.\<close>

definition isYYYYMMDD :: "string \<Rightarrow> bool" where
  "isYYYYMMDD s = (length s = 8 \<and> list_all isDigit s)"

fun matchDayPart :: "string \<Rightarrow> bool" where
  "matchDayPart (c # _) = isDigit c"
| "matchDayPart [] = False"

fun matchMonthPart :: "string \<Rightarrow> bool" where
  "matchMonthPart (m1 # s1 # rest) =
     (isDigit m1 \<and>
      (if s1 = CHR ''-'' \<or> s1 = CHR ''/'' then matchDayPart rest
       else isDigit s1 \<and>
            (case rest of [] \<Rightarrow> False
             | s2 # rest' \<Rightarrow> (s2 = CHR ''-'' \<or> s2 = CHR ''/'') \<and> matchDayPart rest')))"
| "matchMonthPart _ = False"

definition matchesDateString :: "string \<Rightarrow> bool" where
  "matchesDateString s =
     (length s > 4 \<and> list_all isDigit (take 4 s) \<and>
      (s ! 4 = CHR ''-'' \<or> s ! 4 = CHR ''/'') \<and> matchMonthPart (drop 5 s))"

definition isAllDigits :: "string \<Rightarrow> bool" where
  "isAllDigits s = (s \<noteq> [] \<and> list_all isDigit s)"

text \<open>The year test of the two timestamp branches.\<close>

definition yearInRange :: "dateEnv \<Rightarrow> int \<Rightarrow> bool" where
  "yearInRange env ts =
     (case getFullYear env ts of None \<Rightarrow> False | Some year \<Rightarrow> year \<ge> 2010 \<and> year \<le> 2030)"

definition parseYYYYMMDD :: "string \<Rightarrow> int option" where
  "parseYYYYMMDD rawValue =
     (case (parseInt (take 4 rawValue), parseInt (take 2 (drop 4 rawValue)),
            parseInt (take 2 (drop 6 rawValue))) of
        (Some year, Some mm, Some day) \<Rightarrow>
          (let month = mm - 1 in
           case Date_UTC year month day of
             None \<Rightarrow> None
           | Some t \<Rightarrow>
               if getUTCFullYear t = year \<and> getUTCMonth t = month \<and> getUTCDate t = day
               then Some t else None)
      | _ \<Rightarrow> None)"

definition parseTimestampString :: "dateEnv \<Rightarrow> string \<Rightarrow> int option" where
  "parseTimestampString env rawValue =
     (case parseInt rawValue of
        None \<Rightarrow> None
      | Some numValue \<Rightarrow>
          (let ts = (if length rawValue \<le> 10 then numValue * 1000 else numValue)
           in if yearInRange env ts then Some ts else None))"

definition parseTimestampNumber :: "dateEnv \<Rightarrow> int \<Rightarrow> int option" where
  "parseTimestampNumber env rawValue =
     (let ts = (if rawValue < 10000000000 then rawValue * 1000 else rawValue)
      in if yearInRange env ts then Some ts else None)"

text \<open>
  The publish-date block of \<open>getVideosData\<close>: the value of \<open>timestamp\<close> when the block
  ends, \<open>None\<close> for \<open>null\<close>. A branch that only logs a warning leaves \<open>timestamp\<close> null;
  so does the one exception the block can raise (printing an invalid date in a
  warning), which its own \<open>catch\<close> absorbs.
\<close>

definition normalizeDate :: "dateEnv \<Rightarrow> jsval \<Rightarrow> int option" where
  "normalizeDate env rawValue =
     (case rawValue of
        JStr s \<Rightarrow>
          if isYYYYMMDD s then parseYYYYMMDD s
          else if matchesDateString s then Date_parse env s
          else if isAllDigits s then parseTimestampString env s
          else None
      | JNum n \<Rightarrow> parseTimestampNumber env n
      | _ \<Rightarrow> None)"

section \<open>External records and the field map\<close>

record Video =
  nickname :: jsval
  aweme_id :: jsval
  share_url :: jsval
  conv_create_time :: jsval
  desc :: jsval
  digg_count :: jsval
  collect_count :: jsval
  comment_count :: jsval
  duration :: jsval
  play_addr :: jsval
  audio_addr :: jsval
  share_count :: jsval
  video_text_ori :: jsval
  video_text_arr :: jsval

text \<open>
  The thirteen column names of \<open>fieldMapping\<close>, in its order; each constructor stands
  for the column name that \<open>fieldMapping\<close> gives to the member of \<open>Video\<close> named in the
  comment. The field map of a run sends a column name to the field id of the table,
  and a lookup \<open>fieldMap[name]\<close> counts as found when the id is a non-empty string.
\<close>

datatype column =
    ColNickname       \<comment> \<open>nickname\<close>
  | ColVideoId        \<comment> \<open>aweme_id, the dedup key\<close>
  | ColShareUrl       \<comment> \<open>share_url\<close>
  | ColPublishDate    \<comment> \<open>conv_create_time\<close>
  | ColDesc           \<comment> \<open>desc\<close>
  | ColDiggCount      \<comment> \<open>digg_count\<close>
  | ColCollectCount   \<comment> \<open>collect_count\<close>
  | ColCommentCount   \<comment> \<open>comment_count\<close>
  | ColDuration       \<comment> \<open>duration, in seconds\<close>
  | ColPlayAddr       \<comment> \<open>play_addr\<close>
  | ColAudioAddr      \<comment> \<open>audio_addr\<close>
  | ColShareCount     \<comment> \<open>share_count\<close>
  | ColText           \<comment> \<open>video_text_arr\<close>

type_synonym fieldMap = "column \<Rightarrow> string option"

type_synonym recordFields = "string \<rightharpoonup> jsval"

definition resolved :: "fieldMap \<Rightarrow> column \<Rightarrow> bool" where
  "resolved fieldMap c = (case fieldMap c of None \<Rightarrow> False | Some fid \<Rightarrow> fid \<noteq> [])"

text \<open>\<open>if (fieldMap[c]) fields[fieldMap[c]] = v\<close>.\<close>

definition setField :: "fieldMap \<Rightarrow> column \<Rightarrow> jsval \<Rightarrow> recordFields \<Rightarrow> recordFields" where
  "setField fieldMap c v fs =
     (case fieldMap c of
        None \<Rightarrow> fs
      | Some fid \<Rightarrow> if fid \<noteq> [] then fs(fid \<mapsto> v) else fs)"

definition numberOrZero :: "jsval \<Rightarrow> jsval" where
  "numberOrZero v = (case v of JNum n \<Rightarrow> JNum n | _ \<Rightarrow> JNum 0)"

definition durationSeconds :: "jsval \<Rightarrow> jsval" where
  "durationSeconds v = (case v of JNum n \<Rightarrow> JNum (Math_round (of_int n / 1000)) | _ \<Rightarrow> JNum 0)"

definition setPublishDate :: "fieldMap \<Rightarrow> dateEnv \<Rightarrow> Video \<Rightarrow> recordFields \<Rightarrow> recordFields" where
  "setPublishDate fieldMap env video fs =
     (if resolved fieldMap ColPublishDate then
        (case normalizeDate env (conv_create_time video) of
           None \<Rightarrow> fs
         | Some timestamp \<Rightarrow> setField fieldMap ColPublishDate (JNum timestamp) fs)
      else fs)"

text \<open>\<open>video_text_arr || video_text_ori || ''\<close>.\<close>

definition textContent :: "Video \<Rightarrow> jsval" where
  "textContent video = js_or (video_text_arr video) (js_or (video_text_ori video) (JStr []))"

text \<open>
  The assignments to the field object of one record, in the order of the source.
\<close>

definition assignFields :: "fieldMap \<Rightarrow> dateEnv \<Rightarrow> Video \<Rightarrow> recordFields" where
  "assignFields fieldMap env video =
     (setField fieldMap ColText (JStr (js_String (textContent video))) \<circ>
      setField fieldMap ColShareCount (numberOrZero (share_count video)) \<circ>
      setField fieldMap ColAudioAddr (JStr (js_String (js_or (audio_addr video) (JStr [])))) \<circ>
      setField fieldMap ColPlayAddr (JStr (js_String (js_or (play_addr video) (JStr [])))) \<circ>
      setField fieldMap ColDuration (durationSeconds (duration video)) \<circ>
      setField fieldMap ColCommentCount (numberOrZero (comment_count video)) \<circ>
      setField fieldMap ColCollectCount (numberOrZero (collect_count video)) \<circ>
      setField fieldMap ColDiggCount (numberOrZero (digg_count video)) \<circ>
      setField fieldMap ColDesc (JStr (js_String (js_or (desc video) (JStr [])))) \<circ>
      setPublishDate fieldMap env video \<circ>
      setField fieldMap ColShareUrl (JStr (js_String (js_or (share_url video) (JStr [])))) \<circ>
      setField fieldMap ColNickname (JStr (js_String (js_or (nickname video) (JStr [])))) \<circ>
      setField fieldMap ColVideoId (JStr (js_String (aweme_id video))))
     Map.empty"

text \<open>
  The field object built for one record. When the text column has a field id and the
  text of the record is truthy, the code logs \<open>textContent.substring(0, 50)\<close>: for a
  text that is not a string the call raises, and no field object is built.
\<close>

definition videoFields :: "fieldMap \<Rightarrow> dateEnv \<Rightarrow> Video \<Rightarrow> error + recordFields" where
  "videoFields fieldMap env video =
     (let fs = assignFields fieldMap env video in
      if resolved fieldMap ColText \<and> truthy (textContent video) then
        (case substring (textContent video) 0 50 of
           Inl e \<Rightarrow> Inl e
         | Inr shown \<Rightarrow> Inr fs)
      else Inr fs)"

text \<open>
  The head of the loop over the incoming records: a record is skipped by \<open>continue\<close>
  (\<open>Inr None\<close>) when the dedup column has no field id, and mapped otherwise; \<open>Inl\<close> is
  the exception that leaves the loop.
\<close>

definition mapVideo :: "fieldMap \<Rightarrow> dateEnv \<Rightarrow> Video \<Rightarrow> error + recordFields option" where
  "mapVideo fieldMap env video =
     (if resolved fieldMap ColVideoId then
        (case videoFields fieldMap env video of
           Inl e \<Rightarrow> Inl e
         | Inr fs \<Rightarrow> Inr (Some fs))
      else Inr None)"

section \<open>The datastore collaborator\<close>

text \<open>
  The table is reached through the SDK of the datastore, which is not part of the
  program. Its operations are parameters of the model: a state \<open>'t\<close> of the datastore
  and, for each call the program makes, a function of that state. A read returns a
  value or fails; a write returns the state after the call, and an error when the
  call was rejected. \<open>'k\<close> is the type of the continuation cursor.
\<close>

text \<open>
  A record of the table, and an entry of an update: \<open>{ recordId, fields }\<close> (the member
  \<open>fields\<close> is the selector \<open>cellFields\<close>).
\<close>

record IRecord =
  recordId :: string
  cellFields :: recordFields

record 'k getRecordsResponse =
  records :: "IRecord list option"
  hasMore :: bool
  pageToken :: "'k option"
  total :: "nat option"

record ('t, 'k) datastore =
  getRecords :: "'t \<Rightarrow> nat \<Rightarrow> 'k option \<Rightarrow> error + 'k getRecordsResponse"
  getCellString :: "'t \<Rightarrow> string \<Rightarrow> string \<Rightarrow> error + string"
  addRecords :: "'t \<Rightarrow> recordFields list \<Rightarrow> 't \<times> error option"
  setRecords :: "'t \<Rightarrow> IRecord list \<Rightarrow> 't \<times> error option"
  setRecord :: "'t \<Rightarrow> string \<Rightarrow> IRecord \<Rightarrow> 't \<times> error option"

text \<open>
  Of the calls of \<open>logger\<close>, the model keeps those that report a failure, a warning or
  the progress of a write.
\<close>

datatype logmsg =
    LogPageError error
  | LogNoRecordsArray
  | LogCellError string error
  | LogNoVideoIdField
  | LogSkipVideo jsval
  | LogPrepareAdd jsval
  | LogAdded nat nat
  | LogAddDone nat
  | LogAddFailed error
  | LogNothingToAdd
  | LogUpdated nat nat
  | LogUpdateDone nat
  | LogUpdateFailed error
  | LogNothingToUpdate
  | LogBatchUpdateFailed error
  | LogRecordUpdateFailed string error
  | LogLinkError error

section \<open>DedupIndex: the paginated scan\<close>

definition appendPage :: "'k getRecordsResponse \<Rightarrow> IRecord list \<Rightarrow> IRecord list" where
  "appendPage response allRecords =
     (case records response of Some rs \<Rightarrow> allRecords @ rs | None \<Rightarrow> allRecords)"

definition logPage :: "'k getRecordsResponse \<Rightarrow> logmsg list \<Rightarrow> logmsg list" where
  "logPage response logs =
     (case records response of Some rs \<Rightarrow> logs | None \<Rightarrow> logs @ [LogNoRecordsArray])"

text \<open>
  The loop \<open>while (hasMore)\<close> with its inner \<open>try\<close>: one call of \<open>getRecords\<close> per round
  with a page size of 5000, a failed call ends the loop with what was fetched so far.
  The loop runs as long as the datastore reports more pages, so it is a partial
  function: \<open>None\<close> is the run that never leaves the loop.
\<close>

partial_function (option) fetchAllRecords ::
  "('t, 'k) datastore \<Rightarrow> 't \<Rightarrow> 'k option \<Rightarrow> IRecord list \<Rightarrow> logmsg list
     \<Rightarrow> (IRecord list \<times> logmsg list) option" where
  "fetchAllRecords ds table tok allRecords logs =
     (case getRecords ds table 5000 tok of
        Inl e \<Rightarrow> Some (allRecords, logs @ [LogPageError e])
      | Inr response \<Rightarrow>
          if hasMore response
          then fetchAllRecords ds table (pageToken response)
                 (appendPage response allRecords) (logPage response logs)
          else Some (appendPage response allRecords, logPage response logs))"

declare fetchAllRecords.simps [code]

definition cleanVideoId :: "string \<Rightarrow> string" where
  "cleanVideoId s = toLowerCase (trim s)"

text \<open>
  The loop over the fetched records with its inner \<open>try\<close>: the cell of the dedup column
  is read as text; a failed read is logged, an empty text is passed over, any other
  text is cleaned and stored with the record id, replacing an earlier entry of the
  same key.
\<close>

fun indexRecords ::
  "('t, 'k) datastore \<Rightarrow> 't \<Rightarrow> string \<Rightarrow> IRecord list \<Rightarrow> (string \<rightharpoonup> string) \<Rightarrow> logmsg list
     \<Rightarrow> (string \<rightharpoonup> string) \<times> logmsg list" where
  "indexRecords ds table fid [] existingVideoIds logs = (existingVideoIds, logs)"
| "indexRecords ds table fid (r # rest) existingVideoIds logs =
     (case getCellString ds table fid (recordId r) of
        Inl e \<Rightarrow>
          indexRecords ds table fid rest existingVideoIds (logs @ [LogCellError (recordId r) e])
      | Inr videoIdString \<Rightarrow>
          if videoIdString \<noteq> []
          then indexRecords ds table fid rest
                 (existingVideoIds(cleanVideoId videoIdString \<mapsto> recordId r)) logs
          else indexRecords ds table fid rest existingVideoIds logs)"

definition getExistingVideoIds ::
  "('t, 'k) datastore \<Rightarrow> 't \<Rightarrow> fieldMap \<Rightarrow> ((string \<rightharpoonup> string) \<times> logmsg list) option" where
  "getExistingVideoIds ds table fieldMap =
     (case fieldMap ColVideoId of
        None \<Rightarrow> Some (Map.empty, [LogNoVideoIdField])
      | Some videoIdFieldId \<Rightarrow>
          if videoIdFieldId \<noteq> [] then
            (case fetchAllRecords ds table None [] [] of
               None \<Rightarrow> None
             | Some (allRecords, logs) \<Rightarrow>
                 Some (indexRecords ds table videoIdFieldId allRecords Map.empty logs))
          else Some (Map.empty, [LogNoVideoIdField]))"

section \<open>SyncEngine: classification\<close>

text \<open>
  The lookup of an incoming record in the index; a record id counts as found when it
  is a non-empty string.
\<close>

definition lookupExisting :: "(string \<rightharpoonup> string) \<Rightarrow> Video \<Rightarrow> string option" where
  "lookupExisting existingVideoIds video =
     (case existingVideoIds (cleanVideoId (js_String (aweme_id video))) of
        None \<Rightarrow> None
      | Some existingRecordId \<Rightarrow> if existingRecordId \<noteq> [] then Some existingRecordId else None)"

text \<open>
  The loop over the incoming records. An exception raised for one record leaves the
  loop: the two lists built so far are lost with it, and what was logged stays logged.
\<close>

fun classifyVideos ::
  "fieldMap \<Rightarrow> dateEnv \<Rightarrow> (string \<rightharpoonup> string) \<Rightarrow> Video list
     \<Rightarrow> recordFields list \<Rightarrow> IRecord list \<Rightarrow> logmsg list
     \<Rightarrow> (error \<times> logmsg list) + (recordFields list \<times> IRecord list \<times> logmsg list)" where
  "classifyVideos fieldMap env existingVideoIds [] recordsToAdd recordsToUpdate logs =
     Inr (recordsToAdd, recordsToUpdate, logs)"
| "classifyVideos fieldMap env existingVideoIds (video # rest) recordsToAdd recordsToUpdate logs =
     (case mapVideo fieldMap env video of
        Inl e \<Rightarrow> Inl (e, logs)
      | Inr None \<Rightarrow>
          classifyVideos fieldMap env existingVideoIds rest recordsToAdd recordsToUpdate
            (logs @ [LogSkipVideo (aweme_id video)])
      | Inr (Some fs) \<Rightarrow>
          (case lookupExisting existingVideoIds video of
             Some existingRecordId \<Rightarrow>
               classifyVideos fieldMap env existingVideoIds rest recordsToAdd
                 (recordsToUpdate @ [\<lparr>recordId = existingRecordId, cellFields = fs\<rparr>]) logs
           | None \<Rightarrow>
               classifyVideos fieldMap env existingVideoIds rest (recordsToAdd @ [fs])
                 recordsToUpdate (logs @ [LogPrepareAdd (aweme_id video)])))"

section \<open>BatchWriter of the sync engine\<close>

text \<open>
  The two loops \<open>for (let i = 0; i < n; i += batchSize)\<close> with \<open>batchSize = 500\<close>. Each
  stands inside one \<open>try\<close>: the first rejected call leaves the loop.
\<close>

function addBatches ::
  "('t, 'k) datastore \<Rightarrow> recordFields list \<Rightarrow> nat \<Rightarrow> 't \<Rightarrow> logmsg list \<Rightarrow> 't \<times> logmsg list" where
  "addBatches ds recordsToAdd i table logs =
     (if i < length recordsToAdd then
        (let batch = take 500 (drop i recordsToAdd) in
         case addRecords ds table batch of
           (table', Some e) \<Rightarrow> (table', logs @ [LogAddFailed e])
         | (table', None) \<Rightarrow>
             addBatches ds recordsToAdd (i + 500) table'
               (logs @ [LogAdded (i + length batch) (length recordsToAdd)]))
      else (table, logs @ [LogAddDone (length recordsToAdd)]))"
  by pat_completeness auto
termination
  by (relation "measure (\<lambda>(ds, recordsToAdd, i, table, logs). length recordsToAdd - i)") auto

definition addNewRecords ::
  "('t, 'k) datastore \<Rightarrow> recordFields list \<Rightarrow> 't \<Rightarrow> logmsg list \<Rightarrow> 't \<times> logmsg list" where
  "addNewRecords ds recordsToAdd table logs =
     (if length recordsToAdd > 0 then addBatches ds recordsToAdd 0 table logs
      else (table, logs @ [LogNothingToAdd]))"

function updateBatches ::
  "('t, 'k) datastore \<Rightarrow> IRecord list \<Rightarrow> nat \<Rightarrow> 't \<Rightarrow> logmsg list \<Rightarrow> 't \<times> logmsg list" where
  "updateBatches ds recordsToUpdate i table logs =
     (if i < length recordsToUpdate then
        (let batch = take 500 (drop i recordsToUpdate) in
         case setRecords ds table batch of
           (table', Some e) \<Rightarrow> (table', logs @ [LogUpdateFailed e])
         | (table', None) \<Rightarrow>
             updateBatches ds recordsToUpdate (i + 500) table'
               (logs @ [LogUpdated (i + length batch) (length recordsToUpdate)]))
      else (table, logs @ [LogUpdateDone (length recordsToUpdate)]))"
  by pat_completeness auto
termination
  by (relation "measure (\<lambda>(ds, recordsToUpdate, i, table, logs). length recordsToUpdate - i)") auto

definition updateExistingRecords ::
  "('t, 'k) datastore \<Rightarrow> IRecord list \<Rightarrow> 't \<Rightarrow> logmsg list \<Rightarrow> 't \<times> logmsg list" where
  "updateExistingRecords ds recordsToUpdate table logs =
     (if length recordsToUpdate > 0 then updateBatches ds recordsToUpdate 0 table logs
      else (table, logs @ [LogNothingToUpdate]))"

section \<open>SyncEngine: one batch of external records\<close>

text \<open>
  The outcome of one batch: the records handed to \<open>addRecords\<close> and to \<open>setRecords\<close>,
  the table and the log after the batch, and the exception, if any, that reached the
  \<open>catch\<close> of the link.
\<close>

record 't syncResult =
  added :: "recordFields list"
  updated :: "IRecord list"
  tableAfter :: 't
  logged :: "logmsg list"
  thrown :: "error option"

text \<open>
  The part of \<open>getVideosData\<close> that follows the resolution of the field map, for the
  records of one response: build the index, classify, add, update. An exception of
  the classification is caught by the \<open>catch\<close> of the link, after the two writers
  were passed over.
\<close>

definition syncVideos ::
  "('t, 'k) datastore \<Rightarrow> fieldMap \<Rightarrow> dateEnv \<Rightarrow> Video list \<Rightarrow> 't \<Rightarrow> 't syncResult option" where
  "syncVideos ds fieldMap env videos table =
     (case getExistingVideoIds ds table fieldMap of
        None \<Rightarrow> None
      | Some (existingVideoIds, logs0) \<Rightarrow>
          (case classifyVideos fieldMap env existingVideoIds videos [] [] logs0 of
             Inl (e, logs1) \<Rightarrow>
               Some \<lparr>added = [], updated = [], tableAfter = table,
                     logged = logs1 @ [LogLinkError e], thrown = Some e\<rparr>
           | Inr (recordsToAdd, recordsToUpdate, logs1) \<Rightarrow>
               (case addNewRecords ds recordsToAdd table logs1 of
                  (table1, logs2) \<Rightarrow>
                    (case updateExistingRecords ds recordsToUpdate table1 logs2 of
                       (table2, logs3) \<Rightarrow>
                         Some \<lparr>added = recordsToAdd, updated = recordsToUpdate,
                               tableAfter = table2, logged = logs3, thrown = None\<rparr>))))"

section \<open>TaskPipeline: reconciliation and the final write\<close>

datatype status =
    pending | asr_posting | asr_polling | asr_done | llm_posting | llm_polling | llm_done
  | completed | failed

text \<open>
  \<open>ProcessingVideo\<close>; a member that may be \<open>null\<close> or absent is an option. The selectors
  carry the prefix \<open>pv_\<close> because \<open>Video\<close> has members of the same names.
\<close>

record ProcessingVideo =
  pv_recordId :: string
  pv_aweme_id :: string
  pv_play_addr :: "string option"
  pv_audio_addr :: "string option"
  pv_duration :: "int option"
  pv_video_text_ori :: "string option"
  pv_video_text_arr :: "string option"
  pv_asr_task_id :: "string option"
  pv_llm_task_id_list :: "(string \<times> string) list option"
  pv_status :: status
  pv_error :: "string option"

definition strTruthy :: "string option \<Rightarrow> bool" where
  "strTruthy x = (case x of None \<Rightarrow> False | Some s \<Rightarrow> s \<noteq> [])"

text \<open>\<open>video.video_text_arr || video.video_text_ori\<close>.\<close>

definition finalText :: "ProcessingVideo \<Rightarrow> string option" where
  "finalText video =
     (if strTruthy (pv_video_text_arr video) then pv_video_text_arr video
      else pv_video_text_ori video)"

text \<open>
  The loop of step 6 of \<open>handleVideoText\<close> over the processed items: the entries of the
  final write and the count of failures.
\<close>

fun reconcile ::
  "string \<Rightarrow> ProcessingVideo list \<Rightarrow> IRecord list \<Rightarrow> nat \<Rightarrow> IRecord list \<times> nat" where
  "reconcile textFieldId [] recordsToUpdate failCount = (recordsToUpdate, failCount)"
| "reconcile textFieldId (video # rest) recordsToUpdate failCount =
     (if pv_status video = llm_done \<or>
         (pv_status video = asr_done \<and> pv_llm_task_id_list video = None) then
        (case finalText video of
           None \<Rightarrow> reconcile textFieldId rest recordsToUpdate (failCount + 1)
         | Some text \<Rightarrow>
             if text \<noteq> [] \<and> pv_recordId video \<noteq> [] \<and> textFieldId \<noteq> [] then
               reconcile textFieldId rest
                 (recordsToUpdate @
                    [\<lparr>recordId = pv_recordId video, cellFields = [textFieldId \<mapsto> JStr text]\<rparr>])
                 failCount
             else reconcile textFieldId rest recordsToUpdate (failCount + 1))
      else if pv_status video = failed then
        reconcile textFieldId rest recordsToUpdate (failCount + 1)
      else reconcile textFieldId rest recordsToUpdate (failCount + 1))"

text \<open>
  The final write of \<open>handleVideoText\<close>: one call of \<open>setRecords\<close> with all entries and,
  when it is rejected, one call of \<open>setRecord\<close> per entry. The result carries the
  count of entries written.
\<close>

fun setOneByOne ::
  "('t, 'k) datastore \<Rightarrow> IRecord list \<Rightarrow> 't \<Rightarrow> nat \<Rightarrow> logmsg list \<Rightarrow> 't \<times> nat \<times> logmsg list" where
  "setOneByOne ds [] table updateCount logs = (table, updateCount, logs)"
| "setOneByOne ds (r # rest) table updateCount logs =
     (case setRecord ds table (recordId r) r of
        (table', None) \<Rightarrow> setOneByOne ds rest table' (updateCount + 1) logs
      | (table', Some e) \<Rightarrow>
          setOneByOne ds rest table' updateCount (logs @ [LogRecordUpdateFailed (recordId r) e]))"

definition writeTexts ::
  "('t, 'k) datastore \<Rightarrow> IRecord list \<Rightarrow> 't \<Rightarrow> 't \<times> nat \<times> logmsg list" where
  "writeTexts ds recordsToUpdate table =
     (if length recordsToUpdate > 0 then
        (case setRecords ds table recordsToUpdate of
           (table', None) \<Rightarrow> (table', length recordsToUpdate, [])
         | (table', Some e) \<Rightarrow>
             setOneByOne ds recordsToUpdate table' 0 [LogBatchUpdateFailed e])
      else (table, 0, []))"

section \<open>SubscriptionScheduler\<close>

text \<open>
  Time is counted in milliseconds. \<open>subRef\<close> gives the value of the flag
  \<open>subRef.current\<close> at each instant: \<open>bloggersSubscribe\<close> sets it, \<open>cancelSubscription\<close>
  clears it. The wait of one cycle starts at \<open>t0\<close>; its interval timer reads the flag
  at \<open>t0 + 5000 * k\<close> for \<open>k = 1, 2, ...\<close> and ends the wait when the flag is cleared,
  its timeout ends the wait at \<open>t0 + period\<close>. Timers are taken to fire at their
  nominal times. \<open>pollWait\<close> is the instant at which the wait ends.
\<close>

function pollWait :: "nat \<Rightarrow> (nat \<Rightarrow> bool) \<Rightarrow> nat \<Rightarrow> nat \<Rightarrow> nat" where
  "pollWait period subRef t0 k =
     (if period \<le> 5000 * k then t0 + period
      else if \<not> subRef (t0 + 5000 * k) then t0 + 5000 * k
      else pollWait period subRef t0 (Suc k))"
  by pat_completeness auto
termination
  by (relation "measure (\<lambda>(period, subRef, t0, k). period - 5000 * k)") auto

text \<open>
  The loop \<open>while (subRef.current)\<close>: the flag is read at the head of each cycle, the
  task of the cycle is started without being awaited, and the wait follows. The
  result is the instant at which the loop is left; \<open>None\<close> is the loop that is never
  left.
\<close>

partial_function (option) subscribeLoop :: "nat \<Rightarrow> (nat \<Rightarrow> bool) \<Rightarrow> nat \<Rightarrow> nat option" where
  "subscribeLoop period subRef t =
     (if subRef t then subscribeLoop period subRef (pollWait period subRef t 1) else Some t)"

declare subscribeLoop.simps [code]

section \<open>A table held in memory\<close>

text \<open>
  A datastore whose calls all succeed, as the interface of the collaborator describes
  it: a table is a list of records in the order of their creation; a page of
  \<open>getRecords\<close> is the next \<open>pageSize\<close> records and the cursor is the position reached;
  \<open>getCellString\<close> is the text of the cell, empty for a cell never written;
  \<open>addRecords\<close> appends the new records under fresh ids (\<open>newId\<close> names the \<open>n\<close>-th
  record ever created); \<open>setRecords\<close> overwrites the given cells of the records
  named and rejects an unknown record id.
\<close>

record memTable =
  rows :: "IRecord list"
  nextId :: nat

definition cellText :: "jsval option \<Rightarrow> string" where
  "cellText cell = (case cell of None \<Rightarrow> [] | Some v \<Rightarrow> js_String v)"

definition mem_getRecords :: "memTable \<Rightarrow> nat \<Rightarrow> nat option \<Rightarrow> error + nat getRecordsResponse" where
  "mem_getRecords t pageSize tok =
     (let start = (case tok of None \<Rightarrow> 0 | Some k \<Rightarrow> k);
          more = (start + pageSize < length (rows t))
      in Inr \<lparr>records = Some (take pageSize (drop start (rows t))),
              hasMore = more,
              pageToken = (if more then Some (start + pageSize) else None),
              total = Some (length (rows t))\<rparr>)"

definition mem_getCellString :: "memTable \<Rightarrow> string \<Rightarrow> string \<Rightarrow> error + string" where
  "mem_getCellString t fid rid =
     (case find (\<lambda>r. recordId r = rid) (rows t) of
        None \<Rightarrow> Inl (Error ''RecordNotFound'')
      | Some r \<Rightarrow> Inr (cellText (cellFields r fid)))"

definition newRows :: "(nat \<Rightarrow> string) \<Rightarrow> nat \<Rightarrow> recordFields list \<Rightarrow> IRecord list" where
  "newRows newId n batch =
     map (\<lambda>(k, fs). \<lparr>recordId = newId k, cellFields = fs\<rparr>) (zip [n ..< n + length batch] batch)"

definition mem_addRecords ::
  "(nat \<Rightarrow> string) \<Rightarrow> memTable \<Rightarrow> recordFields list \<Rightarrow> memTable \<times> error option" where
  "mem_addRecords newId t batch =
     (\<lparr>rows = rows t @ newRows newId (nextId t) batch, nextId = nextId t + length batch\<rparr>, None)"

definition applyUpdate :: "IRecord \<Rightarrow> IRecord list \<Rightarrow> IRecord list" where
  "applyUpdate u rs =
     map (\<lambda>r. if recordId r = recordId u then r\<lparr>cellFields := cellFields r ++ cellFields u\<rparr> else r) rs"

definition applyAll :: "IRecord list \<Rightarrow> IRecord list \<Rightarrow> IRecord list" where
  "applyAll us rs = foldl (\<lambda>rs u. applyUpdate u rs) rs us"

definition mem_setRecords :: "memTable \<Rightarrow> IRecord list \<Rightarrow> memTable \<times> error option" where
  "mem_setRecords t batch =
     (if \<forall>u \<in> set batch. recordId u \<in> recordId ` set (rows t)
      then (t\<lparr>rows := applyAll batch (rows t)\<rparr>, None)
      else (t, Some (Error ''RecordNotFound'')))"

definition mem_setRecord :: "memTable \<Rightarrow> string \<Rightarrow> IRecord \<Rightarrow> memTable \<times> error option" where
  "mem_setRecord t rid u = mem_setRecords t [u\<lparr>recordId := rid\<rparr>]"

definition memStore :: "(nat \<Rightarrow> string) \<Rightarrow> (memTable, nat) datastore" where
  "memStore newId =
     \<lparr>getRecords = mem_getRecords, getCellString = mem_getCellString,
      addRecords = mem_addRecords newId, setRecords = mem_setRecords,
      setRecord = mem_setRecord\<rparr>"


definition recId :: "nat \<Rightarrow> string" where
  "recId n = ''rec'' @ replicate n (CHR ''x'')"

section \<open>A datastore that records its write calls\<close>

text \<open>
  A datastore for the failure paths of the writers: it keeps every batch passed to
  \<open>addRecords\<close> and \<open>setRecords\<close> and what it accepted. The \<open>n\<close>-th call of \<open>addRecords\<close>
  (counted from 0) is rejected when \<open>failAdd n\<close>; an update is rejected when one of
  its entries is \<open>bad\<close>.
\<close>

record writeLog =
  addCalls :: "recordFields list list"
  addedBatches :: "recordFields list list"
  setCalls :: "IRecord list list"
  appliedUpdates :: "IRecord list"

definition emptyLog :: writeLog where
  "emptyLog = \<lparr>addCalls = [], addedBatches = [], setCalls = [], appliedUpdates = []\<rparr>"

definition rec_addRecords ::
  "(nat \<Rightarrow> bool) \<Rightarrow> writeLog \<Rightarrow> recordFields list \<Rightarrow> writeLog \<times> error option" where
  "rec_addRecords failAdd t batch =
     (if failAdd (length (addCalls t))
      then (t\<lparr>addCalls := addCalls t @ [batch]\<rparr>, Some (Error ''rejected''))
      else (t\<lparr>addCalls := addCalls t @ [batch], addedBatches := addedBatches t @ [batch]\<rparr>, None))"

definition rec_setRecords ::
  "(IRecord \<Rightarrow> bool) \<Rightarrow> writeLog \<Rightarrow> IRecord list \<Rightarrow> writeLog \<times> error option" where
  "rec_setRecords bad t batch =
     (if list_ex bad batch
      then (t\<lparr>setCalls := setCalls t @ [batch]\<rparr>, Some (Error ''rejected''))
      else (t\<lparr>setCalls := setCalls t @ [batch], appliedUpdates := appliedUpdates t @ batch\<rparr>, None))"

definition rec_setRecord ::
  "(IRecord \<Rightarrow> bool) \<Rightarrow> writeLog \<Rightarrow> string \<Rightarrow> IRecord \<Rightarrow> writeLog \<times> error option" where
  "rec_setRecord bad t rid u =
     (if bad u then (t, Some (Error ''rejected''))
      else (t\<lparr>appliedUpdates := appliedUpdates t @ [u]\<rparr>, None))"

definition recordingStore :: "(nat \<Rightarrow> bool) \<Rightarrow> (IRecord \<Rightarrow> bool) \<Rightarrow> (writeLog, unit) datastore" where
  "recordingStore failAdd bad =
     \<lparr>getRecords = (\<lambda>t n tok. Inr \<lparr>records = Some [], hasMore = False, pageToken = None,
                                   total = Some 0\<rparr>),
      getCellString = (\<lambda>t fid rid. Inr []),
      addRecords = rec_addRecords failAdd, setRecords = rec_setRecords bad,
      setRecord = rec_setRecord bad\<rparr>"

text \<open>The chunks of a list at the boundary of 500.\<close>

definition chunks :: "'a list \<Rightarrow> 'a list list" where
  "chunks xs = map (\<lambda>j. take 500 (drop (500 * j) xs)) [0 ..< (length xs + 499) div 500]"

section \<open>Inputs of the examples\<close>

definition env0 :: dateEnv where
  "env0 = \<lparr>Date_parse = (\<lambda>s. None), localTZA = (\<lambda>t. 0)\<rparr>"

definition video0 :: Video where
  "video0 = \<lparr>nickname = JStr ''ann'', aweme_id = JStr ''73'', share_url = JNull,
              conv_create_time = JStr ''20231005'', desc = JNull, digg_count = JNum 1,
              collect_count = JNum 2, comment_count = JNum 3, duration = JNum 1500,
              play_addr = JNull, audio_addr = JNull, share_count = JNum 0,
              video_text_ori = JUndefined, video_text_arr = JUndefined\<rparr>"

text \<open>The ids of the fields that a field map resolves.\<close>

definition fieldIds :: "fieldMap \<Rightarrow> string set" where
  "fieldIds fieldMap = {fid. \<exists>c. resolved fieldMap c \<and> fieldMap c = Some fid}"

text \<open>A field map with the dedup column and the duration column only.\<close>

definition fieldMapIdDuration :: fieldMap where
  "fieldMapIdDuration = (\<lambda>c. None)(ColVideoId \<mapsto> ''fldId'', ColDuration \<mapsto> ''fldDur'')"

text \<open>A field map with every column but the dedup column.\<close>

definition fieldMapNoId :: fieldMap where
  "fieldMapNoId = (\<lambda>c. Some ''fldOther'')(ColVideoId := None)"

text \<open>A field map with the dedup column and the column of the publish date only.\<close>

definition fieldMapIdDate :: fieldMap where
  "fieldMapIdDate = (\<lambda>c. None)(ColVideoId \<mapsto> ''fldId'', ColPublishDate \<mapsto> ''fldDate'')"

section \<open>Notions used in the statements\<close>

text \<open>
  An item contributes to the final write of the pipeline when its status admits it
  and the guard of the loop holds: the chosen text, the record id and the id of the
  text field are all non-empty.
\<close>

definition contributes :: "string \<Rightarrow> ProcessingVideo \<Rightarrow> bool" where
  "contributes textFieldId video =
     ((pv_status video = llm_done \<or>
       (pv_status video = asr_done \<and> pv_llm_task_id_list video = None)) \<and>
      strTruthy (finalText video) \<and> pv_recordId video \<noteq> [] \<and> textFieldId \<noteq> [])"

definition textValue :: "ProcessingVideo \<Rightarrow> string" where
  "textValue video =
     (case pv_video_text_arr video of
        Some cleaned \<Rightarrow>
          if cleaned \<noteq> [] then cleaned
          else (case pv_video_text_ori video of Some raw \<Rightarrow> raw | None \<Rightarrow> [])
      | None \<Rightarrow> (case pv_video_text_ori video of Some raw \<Rightarrow> raw | None \<Rightarrow> []))"

definition textEntry :: "string \<Rightarrow> ProcessingVideo \<Rightarrow> IRecord" where
  "textEntry textFieldId video =
     \<lparr>recordId = pv_recordId video, cellFields = [textFieldId \<mapsto> JStr (textValue video)]\<rparr>"

definition pvDoneNoText :: ProcessingVideo where
  "pvDoneNoText = \<lparr>pv_recordId = ''rec1'', pv_aweme_id = ''73'', pv_play_addr = None,
     pv_audio_addr = None, pv_duration = None, pv_video_text_ori = None,
     pv_video_text_arr = Some [], pv_asr_task_id = Some ''task1'',
     pv_llm_task_id_list = Some [(''c1'', ''m1'')], pv_status = llm_done, pv_error = None\<rparr>"

definition pvRawOnly :: ProcessingVideo where
  "pvRawOnly = \<lparr>pv_recordId = ''rec2'', pv_aweme_id = ''74'', pv_play_addr = None,
     pv_audio_addr = None, pv_duration = None, pv_video_text_ori = Some ''raw text'',
     pv_video_text_arr = None, pv_asr_task_id = Some ''task2'',
     pv_llm_task_id_list = None, pv_status = asr_done, pv_error = None\<rparr>"

text \<open>The progress message of chunk \<open>j\<close> of the insert loop, and chunk \<open>j\<close> itself.\<close>

definition addedMsg :: "'a list \<Rightarrow> nat \<Rightarrow> logmsg" where
  "addedMsg xs j = LogAdded (500 * j + length (take 500 (drop (500 * j) xs))) (length xs)"

definition chunkAt :: "'a list \<Rightarrow> nat \<Rightarrow> 'a list" where
  "chunkAt xs j = take 500 (drop (500 * j) xs)"

definition rows1200 :: "recordFields list" where
  "rows1200 = replicate 1200 Map.empty"

definition failSecond :: "nat \<Rightarrow> bool" where
  "failSecond n = (n = 1)"

definition noBadRow :: "IRecord \<Rightarrow> bool" where
  "noBadRow u = False"

definition neverFail :: "nat \<Rightarrow> bool" where
  "neverFail n = False"

definition upd :: "string \<Rightarrow> IRecord" where
  "upd rid = \<lparr>recordId = rid, cellFields = [''fldText'' \<mapsto> JStr ''text'']\<rparr>"

definition badRow :: "IRecord \<Rightarrow> bool" where
  "badRow u = (recordId u = ''rec2'')"

text \<open>
  \<open>indexStep\<close> and \<open>cellErrors\<close> are the effect of one round of the index loop on the
  index and on the log.
\<close>

definition indexStep ::
  "('t, 'k) datastore \<Rightarrow> 't \<Rightarrow> string \<Rightarrow> (string \<rightharpoonup> string) \<Rightarrow> IRecord \<Rightarrow> (string \<rightharpoonup> string)" where
  "indexStep ds table fid m r =
     (case getCellString ds table fid (recordId r) of
        Inl e \<Rightarrow> m
      | Inr s \<Rightarrow> if s \<noteq> [] then m(cleanVideoId s \<mapsto> recordId r) else m)"

definition cellErrors :: "('t, 'k) datastore \<Rightarrow> 't \<Rightarrow> string \<Rightarrow> IRecord \<Rightarrow> logmsg list" where
  "cellErrors ds table fid r =
     (case getCellString ds table fid (recordId r) of
        Inl e \<Rightarrow> [LogCellError (recordId r) e]
      | Inr s \<Rightarrow> [])"

text \<open>
  The pages that a scan is served before a call of \<open>getRecords\<close> fails: each page is
  the \<open>records\<close> member of a response that reports more pages, with the cursor it
  returns. \<open>pageRecords\<close> and \<open>pageWarnings\<close> are the records of a page and the warning
  for a page without a \<open>records\<close> array.
\<close>

fun pagesThenFailure ::
  "('t, 'k) datastore \<Rightarrow> 't \<Rightarrow> 'k option \<Rightarrow> (IRecord list option \<times> 'k option) list \<Rightarrow> error
     \<Rightarrow> bool" where
  "pagesThenFailure ds table tok [] e = (getRecords ds table 5000 tok = Inl e)"
| "pagesThenFailure ds table tok (page # pages) e =
     (case getRecords ds table 5000 tok of
        Inl e' \<Rightarrow> False
      | Inr response \<Rightarrow>
          records response = fst page \<and> hasMore response \<and> pageToken response = snd page \<and>
          pagesThenFailure ds table (snd page) pages e)"

definition pageRecords :: "IRecord list option \<times> 'k option \<Rightarrow> IRecord list" where
  "pageRecords page = (case fst page of None \<Rightarrow> [] | Some rs \<Rightarrow> rs)"

definition pageWarnings :: "IRecord list option \<times> 'k option \<Rightarrow> logmsg list" where
  "pageWarnings page = (case fst page of None \<Rightarrow> [LogNoRecordsArray] | Some rs \<Rightarrow> [])"

text \<open>
  The canonical id that a row holds for the scan: the trimmed, lower-cased form of
  the text of its cell, when the cell can be read and the text is not empty. The row
  that the index keeps for a key is the last of the scanned rows that holds it.
\<close>

definition storedId :: "('t, 'k) datastore \<Rightarrow> 't \<Rightarrow> string \<Rightarrow> IRecord \<Rightarrow> string option" where
  "storedId ds table fid r =
     (case getCellString ds table fid (recordId r) of
        Inl e \<Rightarrow> None
      | Inr s \<Rightarrow> if s = [] then None else Some (toLowerCase (trim s)))"

definition lastIdWith ::
  "('t, 'k) datastore \<Rightarrow> 't \<Rightarrow> string \<Rightarrow> IRecord list \<Rightarrow> string \<Rightarrow> string option" where
  "lastIdWith ds table fid allRecords key =
     map_option recordId (find (\<lambda>r. storedId ds table fid r = Some key) (rev allRecords))"

text \<open>
  A datastore that serves three pages and then fails: the second page has no
  \<open>records\<close> array, the cell of \<open>rec2\<close> cannot be read, and \<open>rec1\<close> and \<open>rec3\<close> hold the
  same canonical id.
\<close>

definition flakyStore :: "(unit, nat) datastore" where
  "flakyStore =
     \<lparr>getRecords = (\<lambda>t n tok.
         case tok of
           None \<Rightarrow> Inr \<lparr>records = Some [\<lparr>recordId = ''rec1'', cellFields = Map.empty\<rparr>,
                                        \<lparr>recordId = ''rec2'', cellFields = Map.empty\<rparr>],
                        hasMore = True, pageToken = Some 1, total = Some 9000\<rparr>
         | Some k \<Rightarrow>
             if k = 1 then
               Inr \<lparr>records = None, hasMore = True, pageToken = Some 2, total = Some 9000\<rparr>
             else if k = 2 then
               Inr \<lparr>records = Some [\<lparr>recordId = ''rec3'', cellFields = Map.empty\<rparr>,
                                    \<lparr>recordId = ''rec4'', cellFields = Map.empty\<rparr>],
                    hasMore = True, pageToken = Some 3, total = Some 9000\<rparr>
             else Inl (Error ''timeout'')),
      getCellString = (\<lambda>t fid rid.
         if rid = ''rec1'' then Inr '' A1 ''
         else if rid = ''rec2'' then Inl (Error ''unreadable'')
         else if rid = ''rec3'' then Inr ''a1''
         else Inr ''B2''),
      addRecords = (\<lambda>t batch. (t, None)),
      setRecords = (\<lambda>t batch. (t, None)),
      setRecord = (\<lambda>t rid u. (t, None))\<rparr>"

definition flakyPages :: "(IRecord list option \<times> nat option) list" where
  "flakyPages =
     [(Some [\<lparr>recordId = ''rec1'', cellFields = Map.empty\<rparr>,
             \<lparr>recordId = ''rec2'', cellFields = Map.empty\<rparr>], Some 1),
      (None, Some 2),
      (Some [\<lparr>recordId = ''rec3'', cellFields = Map.empty\<rparr>,
             \<lparr>recordId = ''rec4'', cellFields = Map.empty\<rparr>], Some 3)]"

text \<open>
  For the table held in memory: the text of the dedup cell of a record, the signature
  of a record (its id and, when the cell is not empty, its cleaned id), the index
  as a function of the signatures, and the position that a cursor stands for.
\<close>

definition cellOf :: "string \<Rightarrow> IRecord \<Rightarrow> string" where
  "cellOf fid r = cellText (cellFields r fid)"

definition sigOf :: "string \<Rightarrow> IRecord \<Rightarrow> string \<times> string option" where
  "sigOf fid r =
     (recordId r, if cellOf fid r = [] then None else Some (cleanVideoId (cellOf fid r)))"

definition sigStep ::
  "(string \<rightharpoonup> string) \<Rightarrow> string \<times> string option \<Rightarrow> (string \<rightharpoonup> string)" where
  "sigStep m p = (case snd p of None \<Rightarrow> m | Some k \<Rightarrow> m(k \<mapsto> fst p))"


definition tokenStart :: "nat option \<Rightarrow> nat" where
  "tokenStart tok = (case tok of None \<Rightarrow> 0 | Some k \<Rightarrow> k)"

text \<open>
  The update entry that the classification builds for a record found in the index,
  the cells that a list of updates writes to the record of a given id, and the
  updates that leave the signature of every record as it is.
\<close>

definition mkUpdate :: "fieldMap \<Rightarrow> dateEnv \<Rightarrow> (string \<rightharpoonup> string) \<Rightarrow> Video \<Rightarrow> IRecord" where
  "mkUpdate fieldMap env existingVideoIds video =
     \<lparr>recordId = (case lookupExisting existingVideoIds video of Some rid \<Rightarrow> rid | None \<Rightarrow> []),
      cellFields = assignFields fieldMap env video\<rparr>"




text \<open>
  A record raises while its field object is built when the text column has a field id
  and the first truthy one of its two text members is not a string.
\<close>

definition isString :: "jsval \<Rightarrow> bool" where
  "isString v = (case v of JStr s \<Rightarrow> True | _ \<Rightarrow> False)"

definition textThrows :: "fieldMap \<Rightarrow> Video \<Rightarrow> bool" where
  "textThrows fieldMap video =
     (resolved fieldMap ColText \<and>
      (if truthy (video_text_arr video) then \<not> isString (video_text_arr video)
       else truthy (video_text_ori video) \<and> \<not> isString (video_text_ori video)))"

text \<open>
  The empty table, a record whose \<open>aweme_id\<close> is the empty string, and two runs of the
  sync engine on the empty table with one record whose cleaned text is a number, the
  second on the table that the first leaves.
\<close>

definition emptyTable :: memTable where
  "emptyTable = \<lparr>rows = [], nextId = 0\<rparr>"

definition videoEmptyId :: Video where
  "videoEmptyId = video0\<lparr>aweme_id := JStr []\<rparr>"

definition videoNumberText :: Video where
  "videoNumberText = video0\<lparr>video_text_arr := JNum 5\<rparr>"

definition fieldMapWithText :: fieldMap where
  "fieldMapWithText = fieldMapIdDuration(ColText \<mapsto> ''fldText'')"



text \<open>A table of one record, whose canonical-id cell holds a given string.\<close>

definition oneRowTable :: "string \<Rightarrow> memTable" where
  "oneRowTable stored =
     \<lparr>rows = [\<lparr>recordId = ''rec'', cellFields = [''fldId'' \<mapsto> JStr stored]\<rparr>], nextId = 1\<rparr>"

definition videoLower :: Video where
  "videoLower = video0\<lparr>aweme_id := JStr ''abc123''\<rparr>"

text \<open>
  A table of three records: two hold the same canonical id in different spellings,
  the cell of the third is empty.
\<close>

definition threeRowTable :: memTable where
  "threeRowTable =
     \<lparr>rows = [\<lparr>recordId = ''recA'', cellFields = [''fldId'' \<mapsto> JStr '' ABC123 '']\<rparr>,
              \<lparr>recordId = ''recB'', cellFields = [''fldId'' \<mapsto> JStr ''Abc123'']\<rparr>,
              \<lparr>recordId = ''recC'', cellFields = [''fldId'' \<mapsto> JStr []]\<rparr>],
      nextId = 3\<rparr>"

text \<open>
  Two histories of the subscription flag. In both the subscription is cancelled 7000
  ms after the start; in the first a new subscription sets the flag again at 8000 ms,
  before the next poll, in the second at 20000 ms.
\<close>

definition resubscribedAt8000 :: "nat \<Rightarrow> bool" where
  "resubscribedAt8000 t = (t < 7000 \<or> 8000 \<le> t)"

definition resubscribedAt20000 :: "nat \<Rightarrow> bool" where
  "resubscribedAt20000 t = (t < 7000 \<or> 20000 \<le> t)"

section \<open>Properties\<close>

declare addBatches.simps [simp del]

declare updateBatches.simps [simp del]

declare pollWait.simps [simp del]

subsection \<open>Field mapping\<close>

lemma Math_round_div_1000: "Math_round (of_int d / 1000) = (d + 500) div 1000"
proof -
  have e: "(of_int d / 1000 + 1 / 2 :: rat) = of_int (d + 500) / of_int 1000"
    by (simp add: field_simps)
  show ?thesis
    unfolding Math_round_def e by (rule floor_divide_of_int_eq)
qed

lemma setField_other: "fieldMap c \<noteq> Some fid \<Longrightarrow> setField fieldMap c v fs fid = fs fid"
  by (auto simp: setField_def split: option.splits)

lemma setField_same:
  "fieldMap c = Some fid \<Longrightarrow> fid \<noteq> [] \<Longrightarrow> setField fieldMap c v fs fid = Some v"
  by (simp add: setField_def)

lemma dom_setField: "dom (setField fieldMap c v fs) \<subseteq> dom fs \<union> fieldIds fieldMap"
  by (auto simp: setField_def fieldIds_def resolved_def split: option.splits if_splits)

lemma dom_setPublishDate:
  "dom (setPublishDate fieldMap env video fs) \<subseteq> dom fs \<union> fieldIds fieldMap"
  using dom_setField [of fieldMap ColPublishDate _ fs]
  by (auto simp: setPublishDate_def split: option.splits)

lemma dom_setField_in:
  "dom fs \<subseteq> fieldIds fieldMap \<Longrightarrow> dom (setField fieldMap c v fs) \<subseteq> fieldIds fieldMap"
  using dom_setField [of fieldMap c v fs] by blast

lemma dom_setPublishDate_in:
  "dom fs \<subseteq> fieldIds fieldMap \<Longrightarrow>
   dom (setPublishDate fieldMap env video fs) \<subseteq> fieldIds fieldMap"
  using dom_setPublishDate [of fieldMap env video fs] by blast

lemma assignFields_dom: "dom (assignFields fieldMap env video) \<subseteq> fieldIds fieldMap"
  unfolding assignFields_def
  by (auto intro!: dom_setField_in dom_setPublishDate_in simp del: dom_eq_empty_conv)

lemma dom_setField_iff:
  "fid \<in> dom (setField fieldMap c v fs) \<longleftrightarrow>
   fid \<in> dom fs \<or> (resolved fieldMap c \<and> fieldMap c = Some fid)"
  by (auto simp: setField_def resolved_def split: option.splits)

lemma setPublishDate_keeps:
  "fid \<in> dom fs \<Longrightarrow> fid \<in> dom (setPublishDate fieldMap env video fs)"
  by (auto simp: setPublishDate_def setField_def split: option.splits)

lemma assignFields_has:
  assumes "resolved fieldMap c" and "fieldMap c = Some fid" and "c \<noteq> ColPublishDate"
  shows "fid \<in> dom (assignFields fieldMap env video)"
  using assms
  by (cases c) (simp_all add: assignFields_def dom_setField_iff setPublishDate_keeps)


lemma assignFields_publish:
  assumes "fieldMap ColPublishDate = Some p" and "p \<noteq> []"
      and "\<forall>c. c \<noteq> ColPublishDate \<longrightarrow> fieldMap c \<noteq> Some p"
  shows "assignFields fieldMap env video p =
           map_option JNum (normalizeDate env (conv_create_time video))"
  using assms
  by (simp add: assignFields_def setField_other setPublishDate_def resolved_def setField_same
        split: option.splits)

lemma textThrows_iff:
  "textThrows fieldMap video \<longleftrightarrow>
   resolved fieldMap ColText \<and> truthy (textContent video) \<and> \<not> isString (textContent video)"
  by (auto simp: textThrows_def textContent_def js_or_def isString_def)

lemma videoFields_ok:
  "\<not> textThrows fieldMap video \<Longrightarrow>
   videoFields fieldMap env video = Inr (assignFields fieldMap env video)"
  by (auto simp: textThrows_iff videoFields_def substring_def isString_def Let_def
        split: jsval.splits)

lemma videoFields_throws:
  "textThrows fieldMap video \<Longrightarrow> \<exists>e. videoFields fieldMap env video = Inl e"
  by (auto simp: textThrows_iff videoFields_def substring_def isString_def Let_def
        split: jsval.splits)

lemma mapVideo_ok:
  "resolved fieldMap ColVideoId \<Longrightarrow> \<not> textThrows fieldMap video \<Longrightarrow>
   mapVideo fieldMap env video = Inr (Some (assignFields fieldMap env video))"
  by (simp add: mapVideo_def videoFields_ok)

lemma mapVideo_throws:
  "resolved fieldMap ColVideoId \<Longrightarrow> textThrows fieldMap video \<Longrightarrow>
   \<exists>e. mapVideo fieldMap env video = Inl e"
  using videoFields_throws [of fieldMap video env] by (auto simp: mapVideo_def)

lemma mapVideo_skip: "\<not> resolved fieldMap ColVideoId \<Longrightarrow> mapVideo fieldMap env video = Inr None"
  by (simp add: mapVideo_def)

subsection \<open>Classification as two filters\<close>

lemma classifyVideos_ok:
  "resolved fieldMap ColVideoId \<Longrightarrow> \<forall>v \<in> set videos. \<not> textThrows fieldMap v \<Longrightarrow>
   \<exists>logs'. classifyVideos fieldMap env idx videos adds upds logs =
     Inr (adds @ map (assignFields fieldMap env) (filter (\<lambda>v. lookupExisting idx v = None) videos),
          upds @ map (mkUpdate fieldMap env idx) (filter (\<lambda>v. lookupExisting idx v \<noteq> None) videos),
          logs')"
proof (induction videos arbitrary: adds upds logs)
  case Nil
  then show ?case by simp
next
  case (Cons v vs)
  from Cons.prems have m: "mapVideo fieldMap env v = Inr (Some (assignFields fieldMap env v))"
    by (simp add: mapVideo_ok)
  from Cons.prems have r: "\<forall>v \<in> set vs. \<not> textThrows fieldMap v" by simp
  show ?case
  proof (cases "lookupExisting idx v")
    case None
    from Cons.IH [OF Cons.prems(1) r, of "adds @ [assignFields fieldMap env v]" upds
                    "logs @ [LogPrepareAdd (aweme_id v)]"]
    show ?thesis using m None by simp
  next
    case (Some rid)
    from Cons.IH [OF Cons.prems(1) r, of adds
                    "upds @ [\<lparr>recordId = rid, cellFields = assignFields fieldMap env v\<rparr>]" logs]
    show ?thesis using m Some by (simp add: mkUpdate_def)
  qed
qed

lemma classifyVideos_throws:
  "resolved fieldMap ColVideoId \<Longrightarrow> \<exists>v \<in> set videos. textThrows fieldMap v \<Longrightarrow>
   \<exists>e logs'. classifyVideos fieldMap env idx videos adds upds logs = Inl (e, logs')"
proof (induction videos arbitrary: adds upds logs)
  case Nil
  then show ?case by simp
next
  case (Cons v vs)
  show ?case
  proof (cases "textThrows fieldMap v")
    case True
    from mapVideo_throws [OF Cons.prems(1) True, of env] show ?thesis by auto
  next
    case False
    with Cons.prems have m: "mapVideo fieldMap env v = Inr (Some (assignFields fieldMap env v))"
      by (simp add: mapVideo_ok)
    from False Cons.prems have r: "\<exists>v \<in> set vs. textThrows fieldMap v" by auto
    show ?thesis
    proof (cases "lookupExisting idx v")
      case None
      from Cons.IH [OF Cons.prems(1) r, of "adds @ [assignFields fieldMap env v]" upds
                      "logs @ [LogPrepareAdd (aweme_id v)]"]
      show ?thesis using m None by simp
    next
      case (Some rid)
      from Cons.IH [OF Cons.prems(1) r, of adds
                      "upds @ [\<lparr>recordId = rid, cellFields = assignFields fieldMap env v\<rparr>]" logs]
      show ?thesis using m Some by simp
    qed
  qed
qed

lemma classifyVideos_skip:
  "\<not> resolved fieldMap ColVideoId \<Longrightarrow>
   classifyVideos fieldMap env idx videos adds upds logs =
     Inr (adds, upds, logs @ map (\<lambda>v. LogSkipVideo (aweme_id v)) videos)"
proof (induction videos arbitrary: logs)
  case Nil
  then show ?case by simp
next
  case (Cons v vs)
  from Cons.IH [OF Cons.prems, of "logs @ [LogSkipVideo (aweme_id v)]"] Cons.prems
  show ?case by (simp add: mapVideo_skip)
qed

lemma getExistingVideoIds_unresolved:
  "\<not> resolved fieldMap ColVideoId \<Longrightarrow>
   getExistingVideoIds ds table fieldMap = Some (Map.empty, [LogNoVideoIdField])"
  by (auto simp: getExistingVideoIds_def resolved_def split: option.splits)

lemma syncVideos_unresolved:
  "\<not> resolved fieldMap ColVideoId \<Longrightarrow>
   syncVideos ds fieldMap env videos table =
     Some \<lparr>added = [], updated = [], tableAfter = table,
           logged = [LogNoVideoIdField] @ map (\<lambda>v. LogSkipVideo (aweme_id v)) videos @
                    [LogNothingToAdd, LogNothingToUpdate],
           thrown = None\<rparr>"
  by (simp add: syncVideos_def getExistingVideoIds_unresolved classifyVideos_skip
        addNewRecords_def updateExistingRecords_def)

lemma yearInRange_iff:
  "yearInRange env ts \<longleftrightarrow>
   (\<exists>year. getFullYear env ts = Some year \<and> 2010 \<le> year \<and> year \<le> 2030)"
  by (auto simp: yearInRange_def split: option.splits)

text \<open>
  Claim C10. When the dedup column and the duration column are resolved, a record
  either raises while its field object is built (the text column is resolved and the
  text of the record is truthy and not a string), and then no field object exists, or
  its field object holds, under the id of the duration column, the rounded quotient
  \<open>Math.round(duration / 1000)\<close> when the duration of the record is a number, and 0
  otherwise. The ids of the columns assigned after the duration are taken to differ
  from the id of the duration column, as the ids of distinct fields of a table do.
\<close>

theorem duration_written_in_seconds:
  assumes "resolved fieldMap ColVideoId"
      and "fieldMap ColDuration = Some fid" and "fid \<noteq> []"
      and "\<forall>c \<in> {ColPlayAddr, ColAudioAddr, ColShareCount, ColText}. fieldMap c \<noteq> Some fid"
  shows "if textThrows fieldMap video
         then \<exists>e. mapVideo fieldMap env video = Inl e
         else \<exists>fs. mapVideo fieldMap env video = Inr (Some fs) \<and>
                fs fid = Some (case duration video of
                                 JNum d \<Rightarrow> JNum (Math_round (of_int d / 1000))
                               | _ \<Rightarrow> JNum 0)"
proof (cases "textThrows fieldMap video")
  case True
  with mapVideo_throws [OF assms(1) True, of env] show ?thesis by simp
next
  case False
  have "assignFields fieldMap env video fid =
          Some (case duration video of
                  JNum d \<Rightarrow> JNum (Math_round (of_int d / 1000))
                | _ \<Rightarrow> JNum 0)"
    using assms(2,3,4)
    by (simp add: assignFields_def setField_other setField_same durationSeconds_def)
  with mapVideo_ok [OF assms(1) False, of env] False show ?thesis by simp
qed

theorem duration_written_in_seconds_witness:
  "(\<exists>fs. mapVideo fieldMapIdDuration env0 video0 = Inr (Some fs) \<and>
         fs ''fldDur'' = Some (JNum 2)) \<and>
   (\<exists>fs. mapVideo fieldMapIdDuration env0 (video0\<lparr>duration := JStr ''1500''\<rparr>) = Inr (Some fs) \<and>
         fs ''fldDur'' = Some (JNum 0)) \<and>
   (\<exists>e. mapVideo fieldMapWithText env0 videoNumberText = Inl e)"
proof -
  have a: "resolved fieldMapIdDuration ColVideoId"
    by (simp add: resolved_def fieldMapIdDuration_def)
  have b: "fieldMapIdDuration ColDuration = Some ''fldDur''"
    by (simp add: fieldMapIdDuration_def)
  have c: "\<forall>c \<in> {ColPlayAddr, ColAudioAddr, ColShareCount, ColText}.
             fieldMapIdDuration c \<noteq> Some ''fldDur''"
    by (simp add: fieldMapIdDuration_def)
  have d: "Math_round (of_int 1500 / 1000) = 2" by code_simp
  have t: "\<not> textThrows fieldMapIdDuration v" for v
    by (simp add: textThrows_def resolved_def fieldMapIdDuration_def)
  have x: "\<exists>fs. mapVideo fieldMapIdDuration env0 video0 = Inr (Some fs) \<and>
                fs ''fldDur'' = Some (JNum 2)"
    using duration_written_in_seconds [OF a b _ c, of video0 env0] d t
    by (simp add: video0_def)
  have y: "\<exists>fs. mapVideo fieldMapIdDuration env0 (video0\<lparr>duration := JStr ''1500''\<rparr>) =
                  Inr (Some fs) \<and> fs ''fldDur'' = Some (JNum 0)"
    using duration_written_in_seconds
            [OF a b _ c, of "video0\<lparr>duration := JStr ''1500''\<rparr>" env0] t
    by (simp add: video0_def)
  have z: "\<exists>e. mapVideo fieldMapWithText env0 videoNumberText = Inl e"
  proof -
    have a': "resolved fieldMapWithText ColVideoId"
      by (simp add: resolved_def fieldMapWithText_def fieldMapIdDuration_def)
    have b': "fieldMapWithText ColDuration = Some ''fldDur''"
      by (simp add: fieldMapWithText_def fieldMapIdDuration_def)
    have c': "\<forall>c \<in> {ColPlayAddr, ColAudioAddr, ColShareCount, ColText}.
                fieldMapWithText c \<noteq> Some ''fldDur''"
      by (simp add: fieldMapWithText_def fieldMapIdDuration_def)
    have t': "textThrows fieldMapWithText videoNumberText"
      by (simp add: textThrows_def resolved_def fieldMapWithText_def videoNumberText_def
            video0_def isString_def)
    from duration_written_in_seconds [OF a' b' _ c', of videoNumberText env0] t'
    show ?thesis by simp
  qed
  from x y z show ?thesis by blast
qed

text \<open>
  Claim C4, as stated, fails: the 8-digit rule has no test of the year. The string
  \<open>19990101\<close> is a date of the year 1999, and its timestamp is accepted.
\<close>

theorem year_filter_counterexample:
  "getFullYear env0 915148800000 = Some 1999 \<and>
   normalizeDate env0 (JStr ''19990101'') = Some 915148800000"
  by code_simp

text \<open>
  Claim C4, amended. The test of the year belongs to the two timestamp rules. A
  number is accepted exactly when the year of its timestamp (the number itself, or
  1000 times the number when it is below 10000000000) lies in 2010 to 2030; a
  string that is neither an 8-digit date nor a date with separators is accepted
  exactly when it is all digits and the year of its timestamp (its value, or 1000
  times its value when it has at most 10 digits) lies in 2010 to 2030. A string with
  separators yields what the generic parse of the host yields, with no test of the
  year. Whenever the result is unparseable, the date field is left unset.
\<close>

theorem year_filter_on_timestamp_rules:
  "(normalizeDate env (JNum n) = Some ts \<longleftrightarrow>
      ts = (if n < 10000000000 then n * 1000 else n) \<and>
      (\<exists>year. getFullYear env ts = Some year \<and> 2010 \<le> year \<and> year \<le> 2030)) \<and>
   (\<not> isYYYYMMDD s \<and> \<not> matchesDateString s \<longrightarrow>
      (normalizeDate env (JStr s) = Some ts \<longleftrightarrow>
         isAllDigits s \<and>
         (\<exists>numValue. parseInt s = Some numValue \<and>
            ts = (if length s \<le> 10 then numValue * 1000 else numValue)) \<and>
         (\<exists>year. getFullYear env ts = Some year \<and> 2010 \<le> year \<and> year \<le> 2030))) \<and>
   (\<not> isYYYYMMDD s \<and> matchesDateString s \<longrightarrow>
      normalizeDate env (JStr s) = Date_parse env s) \<and>
   (normalizeDate env (conv_create_time video) = None \<longrightarrow>
      setPublishDate fieldMap env video fs = fs)"
  by (auto simp: normalizeDate_def parseTimestampNumber_def parseTimestampString_def
        yearInRange_iff setPublishDate_def Let_def split: option.splits)

theorem year_filter_on_timestamp_rules_witness:
  "normalizeDate env0 (JNum 953280000000) \<noteq> Some 953280000000 \<and>
   normalizeDate env0 (JStr ''1696492800'') = Some 1696492800000 \<and>
   normalizeDate env0 (JStr ''2023-10-05'') = None \<and>
   setPublishDate fieldMapIdDuration env0 (video0\<lparr>conv_create_time := JStr ''2023-10-05''\<rparr>)
     Map.empty = Map.empty"
proof -
  have y1: "getFullYear env0 953280000000 = Some 2000" by code_simp
  have y2: "getFullYear env0 1696492800000 = Some 2023" by code_simp
  have s1: "\<not> isYYYYMMDD ''1696492800'' \<and> \<not> matchesDateString ''1696492800''" by code_simp
  have s2: "isAllDigits ''1696492800'' \<and> parseInt ''1696492800'' = Some 1696492800 \<and>
            length ''1696492800'' \<le> 10" by code_simp
  have s3: "\<not> isYYYYMMDD ''2023-10-05'' \<and> matchesDateString ''2023-10-05''" by code_simp
  have p: "Date_parse env0 ''2023-10-05'' = None" by (simp add: env0_def)
  have a: "normalizeDate env0 (JNum 953280000000) \<noteq> Some 953280000000"
    using year_filter_on_timestamp_rules [of env0 953280000000 953280000000] y1 by simp
  have b: "normalizeDate env0 (JStr ''1696492800'') = Some 1696492800000"
    using year_filter_on_timestamp_rules [of env0 _ 1696492800000 "''1696492800''"] y2 s1 s2
    by simp
  have c: "normalizeDate env0 (JStr ''2023-10-05'') = None"
    using year_filter_on_timestamp_rules [of env0 _ _ "''2023-10-05''"] s3 p by simp
  have d: "setPublishDate fieldMapIdDuration env0
             (video0\<lparr>conv_create_time := JStr ''2023-10-05''\<rparr>) Map.empty = Map.empty"
    using year_filter_on_timestamp_rules
            [of env0 _ _ _ "video0\<lparr>conv_create_time := JStr ''2023-10-05''\<rparr>"
                fieldMapIdDuration Map.empty] c
    by simp
  from a b c d show ?thesis by blast
qed

text \<open>
  Claim C6, as stated, fails for the dedup column: when its field id is absent, every
  record is skipped, nothing is classified and the table is left as it was.
\<close>

theorem missing_id_column_counterexample:
  "resolved fieldMapNoId ColNickname \<and> \<not> resolved fieldMapNoId ColVideoId \<and>
   classifyVideos fieldMapNoId env0 Map.empty [video0] [] [] [] =
     Inr ([], [], [LogSkipVideo (JStr ''73'')]) \<and>
   map_option tableAfter (syncVideos (memStore recId) fieldMapNoId env0 [video0] emptyTable) =
     Some emptyTable"
proof -
  have n: "\<not> resolved fieldMapNoId ColVideoId" by (simp add: resolved_def fieldMapNoId_def)
  have "resolved fieldMapNoId ColNickname" by (simp add: resolved_def fieldMapNoId_def)
  moreover have "classifyVideos fieldMapNoId env0 Map.empty [video0] [] [] [] =
                   Inr ([], [], [LogSkipVideo (JStr ''73'')])"
    using n by (simp add: mapVideo_def video0_def)
  moreover have "map_option tableAfter
                   (syncVideos (memStore recId) fieldMapNoId env0 [video0] emptyTable) =
                 Some emptyTable"
    by (simp add: syncVideos_unresolved [OF n])
  ultimately show ?thesis using n by blast
qed

text \<open>
  Claim C6, amended. When the dedup column is resolved and no record raises, every
  incoming record is classified, in the order of the input: the records not found in
  the index are the inserts and the records found are the updates, each with the field
  object of its record. The field object of a record holds a value for every resolved
  column other than the publish date and for nothing else than resolved columns, so a
  column without a field id is left out and the record is kept; under the id of the
  publish date, when no other column shares it, it holds the timestamp of the
  normalised date and nothing when the date is unparseable. When the dedup column
  itself is not resolved, the scan is passed over with the message that all records
  will be added as new, every record is skipped with a warning, and nothing is
  written. When the dedup column is resolved and a record raises, the classification
  ends with the exception.
\<close>

theorem unresolved_columns_omitted:
  "(resolved fieldMap ColVideoId \<and> (\<forall>v \<in> set videos. \<not> textThrows fieldMap v) \<longrightarrow>
      (\<exists>recordsToAdd recordsToUpdate logs.
         classifyVideos fieldMap env existingVideoIds videos [] [] [] =
           Inr (recordsToAdd, recordsToUpdate, logs) \<and>
         recordsToAdd =
           map (assignFields fieldMap env)
             (filter (\<lambda>v. lookupExisting existingVideoIds v = None) videos) \<and>
         map cellFields recordsToUpdate =
           map (assignFields fieldMap env)
             (filter (\<lambda>v. lookupExisting existingVideoIds v \<noteq> None) videos) \<and>
         length recordsToAdd + length recordsToUpdate = length videos)) \<and>
   dom (assignFields fieldMap env video) \<subseteq> fieldIds fieldMap \<and>
   (\<forall>c fid. resolved fieldMap c \<and> c \<noteq> ColPublishDate \<and> fieldMap c = Some fid \<longrightarrow>
      fid \<in> dom (assignFields fieldMap env video)) \<and>
   (\<forall>p. fieldMap ColPublishDate = Some p \<and> p \<noteq> [] \<and>
        (\<forall>c. c \<noteq> ColPublishDate \<longrightarrow> fieldMap c \<noteq> Some p) \<longrightarrow>
      assignFields fieldMap env video p =
        map_option JNum (normalizeDate env (conv_create_time video))) \<and>
   (\<not> resolved fieldMap ColVideoId \<longrightarrow>
      syncVideos ds fieldMap env videos table =
        Some \<lparr>added = [], updated = [], tableAfter = table,
              logged = [LogNoVideoIdField] @ map (\<lambda>v. LogSkipVideo (aweme_id v)) videos @
                       [LogNothingToAdd, LogNothingToUpdate],
              thrown = None\<rparr>) \<and>
   (resolved fieldMap ColVideoId \<and> (\<exists>v \<in> set videos. textThrows fieldMap v) \<longrightarrow>
      (\<exists>e logs. classifyVideos fieldMap env existingVideoIds videos [] [] [] = Inl (e, logs)))"
proof (intro conjI impI allI)
  assume a: "resolved fieldMap ColVideoId \<and> (\<forall>v \<in> set videos. \<not> textThrows fieldMap v)"
  let ?A = "map (assignFields fieldMap env)
              (filter (\<lambda>v. lookupExisting existingVideoIds v = None) videos)"
  let ?U = "map (mkUpdate fieldMap env existingVideoIds)
              (filter (\<lambda>v. lookupExisting existingVideoIds v \<noteq> None) videos)"
  from a classifyVideos_ok [of fieldMap videos env existingVideoIds "[]" "[]" "[]"]
  obtain logs where c: "classifyVideos fieldMap env existingVideoIds videos [] [] [] =
                          Inr (?A, ?U, logs)"
    by auto
  have u: "map cellFields ?U =
             map (assignFields fieldMap env)
               (filter (\<lambda>v. lookupExisting existingVideoIds v \<noteq> None) videos)"
    by (simp add: mkUpdate_def comp_def)
  have n: "length ?A + length ?U = length videos"
    using sum_length_filter_compl [of "\<lambda>v. lookupExisting existingVideoIds v = None" videos]
    by (simp add: add.commute)
  from c u n
  show "\<exists>recordsToAdd recordsToUpdate logs.
          classifyVideos fieldMap env existingVideoIds videos [] [] [] =
            Inr (recordsToAdd, recordsToUpdate, logs) \<and>
          recordsToAdd = ?A \<and>
          map cellFields recordsToUpdate =
            map (assignFields fieldMap env)
              (filter (\<lambda>v. lookupExisting existingVideoIds v \<noteq> None) videos) \<and>
          length recordsToAdd + length recordsToUpdate = length videos"
    by blast
next
  show "dom (assignFields fieldMap env video) \<subseteq> fieldIds fieldMap" by (rule assignFields_dom)
next
  fix c fid
  assume "resolved fieldMap c \<and> c \<noteq> ColPublishDate \<and> fieldMap c = Some fid"
  then show "fid \<in> dom (assignFields fieldMap env video)"
    using assignFields_has [of fieldMap c fid env video] by blast
next
  fix p
  assume "fieldMap ColPublishDate = Some p \<and> p \<noteq> [] \<and>
          (\<forall>c. c \<noteq> ColPublishDate \<longrightarrow> fieldMap c \<noteq> Some p)"
  then show "assignFields fieldMap env video p =
               map_option JNum (normalizeDate env (conv_create_time video))"
    by (intro assignFields_publish) auto
next
  assume "\<not> resolved fieldMap ColVideoId"
  then show "syncVideos ds fieldMap env videos table =
        Some \<lparr>added = [], updated = [], tableAfter = table,
              logged = [LogNoVideoIdField] @ map (\<lambda>v. LogSkipVideo (aweme_id v)) videos @
                       [LogNothingToAdd, LogNothingToUpdate],
              thrown = None\<rparr>"
    by (rule syncVideos_unresolved)
next
  assume "resolved fieldMap ColVideoId \<and> (\<exists>v \<in> set videos. textThrows fieldMap v)"
  then show "\<exists>e logs. classifyVideos fieldMap env existingVideoIds videos [] [] [] = Inl (e, logs)"
    using classifyVideos_throws [of fieldMap videos env existingVideoIds "[]" "[]" "[]"] by blast
qed

theorem unresolved_columns_omitted_witness:
  "(\<exists>logs. classifyVideos fieldMapIdDuration env0 Map.empty [video0] [] [] [] =
             Inr ([assignFields fieldMapIdDuration env0 video0], [], logs)) \<and>
   ''fldId'' \<in> dom (assignFields fieldMapIdDuration env0 video0) \<and>
   ''fldDur'' \<in> dom (assignFields fieldMapIdDuration env0 video0) \<and>
   dom (assignFields fieldMapIdDuration env0 video0) \<subseteq> fieldIds fieldMapIdDuration \<and>
   assignFields fieldMapIdDate env0 video0 ''fldDate'' = Some (JNum 1696464000000) \<and>
   assignFields fieldMapIdDate env0 (video0\<lparr>conv_create_time := JStr ''soon''\<rparr>) ''fldDate'' = None \<and>
   syncVideos (memStore recId) fieldMapNoId env0 [video0] emptyTable =
     Some \<lparr>added = [], updated = [], tableAfter = emptyTable,
           logged = [LogNoVideoIdField, LogSkipVideo (JStr ''73''), LogNothingToAdd,
                     LogNothingToUpdate],
           thrown = None\<rparr> \<and>
   (\<exists>e logs. classifyVideos fieldMapWithText env0 Map.empty [video0, videoNumberText] [] [] [] =
               Inl (e, logs))"
proof -
  have r: "resolved fieldMapIdDuration ColVideoId"
    by (simp add: resolved_def fieldMapIdDuration_def)
  have t: "\<forall>v \<in> set [video0]. \<not> textThrows fieldMapIdDuration v"
    by (simp add: textThrows_def resolved_def fieldMapIdDuration_def)
  have l: "lookupExisting Map.empty video0 = None" by (simp add: lookupExisting_def)
  note th = unresolved_columns_omitted
              [where fieldMap = fieldMapIdDuration and videos = "[video0]" and env = env0
                 and existingVideoIds = Map.empty and video = video0
                 and ds = "memStore recId" and table = emptyTable]
  from th [THEN conjunct1] r t l
  have a: "\<exists>logs. classifyVideos fieldMapIdDuration env0 Map.empty [video0] [] [] [] =
                    Inr ([assignFields fieldMapIdDuration env0 video0], [], logs)"
    by auto
  note has = th [THEN conjunct2, THEN conjunct2, THEN conjunct1, rule_format]
  have b1: "''fldId'' \<in> dom (assignFields fieldMapIdDuration env0 video0)"
    by (rule has [of ColVideoId]) (simp add: resolved_def fieldMapIdDuration_def)
  have b2: "''fldDur'' \<in> dom (assignFields fieldMapIdDuration env0 video0)"
    by (rule has [of ColDuration]) (simp add: resolved_def fieldMapIdDuration_def)
  from th [THEN conjunct2, THEN conjunct1]
  have c: "dom (assignFields fieldMapIdDuration env0 video0) \<subseteq> fieldIds fieldMapIdDuration" .
  have d: "fieldMapIdDate ColPublishDate = Some ''fldDate'' \<and> ''fldDate'' \<noteq> [] \<and>
           (\<forall>c. c \<noteq> ColPublishDate \<longrightarrow> fieldMapIdDate c \<noteq> Some ''fldDate'')"
    by (simp add: fieldMapIdDate_def)
  have n1: "normalizeDate env0 (JStr ''20231005'') = Some 1696464000000" by code_simp
  have n2: "normalizeDate env0 (JStr ''soon'') = None" by code_simp
  note date = unresolved_columns_omitted
                [where fieldMap = fieldMapIdDate and videos = "[]" and env = env0
                   and existingVideoIds = Map.empty
                   and ds = "memStore recId" and table = emptyTable,
                 THEN conjunct2, THEN conjunct2, THEN conjunct2, THEN conjunct1, rule_format]
  have e: "assignFields fieldMapIdDate env0 video0 ''fldDate'' = Some (JNum 1696464000000)"
    using date [of "''fldDate''" video0, OF d] n1 by (simp add: video0_def)
  have f: "assignFields fieldMapIdDate env0 (video0\<lparr>conv_create_time := JStr ''soon''\<rparr>)
             ''fldDate'' = None"
    using date [of "''fldDate''" "video0\<lparr>conv_create_time := JStr ''soon''\<rparr>", OF d] n2
    by simp
  have n: "\<not> resolved fieldMapNoId ColVideoId" by (simp add: resolved_def fieldMapNoId_def)
  from unresolved_columns_omitted
         [where fieldMap = fieldMapNoId and videos = "[video0]" and env = env0
            and existingVideoIds = Map.empty and video = video0
            and ds = "memStore recId" and table = emptyTable,
          THEN conjunct2, THEN conjunct2, THEN conjunct2, THEN conjunct2, THEN conjunct1,
          rule_format, OF n]
  have g: "syncVideos (memStore recId) fieldMapNoId env0 [video0] emptyTable =
     Some \<lparr>added = [], updated = [], tableAfter = emptyTable,
           logged = [LogNoVideoIdField, LogSkipVideo (JStr ''73''), LogNothingToAdd,
                     LogNothingToUpdate],
           thrown = None\<rparr>"
    by (simp add: video0_def)
  have w: "resolved fieldMapWithText ColVideoId \<and>
           (\<exists>v \<in> set [video0, videoNumberText]. textThrows fieldMapWithText v)"
    by (simp add: textThrows_def resolved_def fieldMapWithText_def fieldMapIdDuration_def
          videoNumberText_def video0_def isString_def)
  from unresolved_columns_omitted
         [where fieldMap = fieldMapWithText and videos = "[video0, videoNumberText]"
            and env = env0 and existingVideoIds = Map.empty and video = video0
            and ds = "memStore recId" and table = emptyTable,
          THEN conjunct2, THEN conjunct2, THEN conjunct2, THEN conjunct2, THEN conjunct2,
          rule_format, OF w]
  have h: "\<exists>e logs. classifyVideos fieldMapWithText env0 Map.empty [video0, videoNumberText]
                      [] [] [] = Inl (e, logs)" .
  show ?thesis
    by (intro conjI) (rule a b1 b2 c e f g h)+
qed

subsection \<open>Reconciliation of the pipeline\<close>

lemma finalText_textValue: "finalText video = Some text \<Longrightarrow> textValue video = text"
  by (auto simp: finalText_def textValue_def strTruthy_def split: option.splits if_splits)

lemma reconcile_acc:
  "reconcile tf videos ups fc =
     (ups @ map (textEntry tf) (filter (contributes tf) videos),
      fc + length (filter (\<lambda>v. \<not> contributes tf v) videos))"
proof (induction videos arbitrary: ups fc)
  case Nil
  then show ?case by simp
next
  case (Cons v vs)
  show ?case
  proof (cases "contributes tf v")
    case True
    then obtain str where t: "finalText v = Some str" "str \<noteq> []"
      by (auto simp: contributes_def strTruthy_def split: option.splits)
    with True show ?thesis
      by (simp add: Cons.IH contributes_def textEntry_def finalText_textValue)
  next
    case False
    then show ?thesis
      by (auto simp: Cons.IH contributes_def strTruthy_def split: option.splits)
  qed
qed

lemma setOneByOne_count:
  "setOneByOne ds recs table n logs = (table', n', logs') \<Longrightarrow> n \<le> n' \<and> n' \<le> n + length recs"
proof (induction recs arbitrary: table n logs)
  case Nil
  then show ?case by simp
next
  case (Cons r rs)
  obtain t1 e1 where s: "setRecord ds table (recordId r) r = (t1, e1)" by (cases "setRecord ds table (recordId r) r")
  show ?case
  proof (cases e1)
    case None
    with Cons.prems s have "setOneByOne ds rs t1 (n + 1) logs = (table', n', logs')" by simp
    from Cons.IH [OF this] show ?thesis by simp
  next
    case (Some e)
    with Cons.prems s
    have "setOneByOne ds rs t1 n (logs @ [LogRecordUpdateFailed (recordId r) e]) = (table', n', logs')"
      by simp
    from Cons.IH [OF this] show ?thesis by simp
  qed
qed

lemma writeTexts_count:
  "writeTexts ds recs table = (table', n', logs') \<Longrightarrow> n' \<le> length recs"
  by (auto simp: writeTexts_def split: if_splits prod.splits option.splits
        dest: setOneByOne_count)

text \<open>
  Claim C5, as stated, fails: an item in \<open>llm_done\<close> whose texts are empty or absent
  is not written; the guard of the loop counts it as a failure.
\<close>

theorem done_item_without_text_counterexample:
  "pv_status pvDoneNoText = llm_done \<and> reconcile ''fldText'' [pvDoneNoText] [] 0 = ([], 1)"
  by (simp add: pvDoneNoText_def finalText_def strTruthy_def)

text \<open>
  Claim C5, amended. An item contributes an entry to the final write exactly when its
  status is \<open>llm_done\<close>, or \<open>asr_done\<close> with no list of LLM sub-tasks, and its chosen
  text, its record id and the id of the text field are non-empty. The entry carries
  the cleaned text when that is non-empty and the raw text otherwise. Every other
  item counts as one failure, so entries and failures add up to the number of items.
  The final write returns a count of written entries, for any datastore, whatever
  call it rejects.
\<close>

theorem reconciliation_contributions:
  "reconcile textFieldId videos [] 0 =
     (map (textEntry textFieldId) (filter (contributes textFieldId) videos),
      length (filter (\<lambda>v. \<not> contributes textFieldId v) videos)) \<and>
   length (fst (reconcile textFieldId videos [] 0)) + snd (reconcile textFieldId videos [] 0)
     = length videos \<and>
   (\<exists>table' updateCount logs.
      writeTexts ds (fst (reconcile textFieldId videos [] 0)) table = (table', updateCount, logs) \<and>
      updateCount \<le> length videos)"
proof -
  have a: "reconcile textFieldId videos [] 0 =
     (map (textEntry textFieldId) (filter (contributes textFieldId) videos),
      length (filter (\<lambda>v. \<not> contributes textFieldId v) videos))"
    by (simp add: reconcile_acc)
  have b: "length (fst (reconcile textFieldId videos [] 0)) + snd (reconcile textFieldId videos [] 0)
     = length videos"
    unfolding a by (simp add: sum_length_filter_compl)
  obtain table' updateCount logs where
    w: "writeTexts ds (fst (reconcile textFieldId videos [] 0)) table = (table', updateCount, logs)"
    by (metis prod_cases3)
  from writeTexts_count [OF w] b have "updateCount \<le> length videos" by simp
  with a b w show ?thesis by blast
qed

theorem reconciliation_contributions_witness:
  "reconcile ''fldText'' [pvDoneNoText, pvRawOnly] [] 0 =
     ([\<lparr>recordId = ''rec2'', cellFields = [''fldText'' \<mapsto> JStr ''raw text'']\<rparr>], 1)"
proof -
  have c: "\<not> contributes ''fldText'' pvDoneNoText" "contributes ''fldText'' pvRawOnly"
    by (simp_all add: contributes_def pvDoneNoText_def pvRawOnly_def finalText_def strTruthy_def)
  have e: "textEntry ''fldText'' pvRawOnly =
             \<lparr>recordId = ''rec2'', cellFields = [''fldText'' \<mapsto> JStr ''raw text'']\<rparr>"
    by (simp add: textEntry_def textValue_def pvRawOnly_def)
  have r: "reconcile ''fldText'' [pvDoneNoText, pvRawOnly] [] 0 =
             (map (textEntry ''fldText'') (filter (contributes ''fldText'') [pvDoneNoText, pvRawOnly]),
              length (filter (\<lambda>v. \<not> contributes ''fldText'' v) [pvDoneNoText, pvRawOnly]))"
    using reconciliation_contributions
            [of "''fldText''" "[pvDoneNoText, pvRawOnly]" "recordingStore neverFail noBadRow"
                emptyLog]
    by (elim conjE)
  show ?thesis
    unfolding r using c e by simp
qed

subsection \<open>The chunked writers\<close>

lemma chunks_alt: "chunks xs = map (chunkAt xs) [0 ..< (length xs + 499) div 500]"
  by (simp add: chunks_def chunkAt_def)

lemma chunk_in_range: "j < (length xs + 499) div 500 \<longleftrightarrow> 500 * j < length xs"
  by arith

lemma chunks_length: "c \<in> set (chunks xs) \<Longrightarrow> 0 < length c \<and> length c \<le> 500"
  by (auto simp: chunks_def chunk_in_range)

lemma concat_chunks_from:
  "concat (map (chunkAt xs) [j ..< j + n]) = take (500 * n) (drop (500 * j) xs)"
proof (induction n arbitrary: j)
  case 0
  then show ?case by simp
next
  case (Suc n)
  have "[j ..< j + Suc n] = j # [Suc j ..< Suc j + n]"
    by (simp add: upt_conv_Cons)
  then have "concat (map (chunkAt xs) [j ..< j + Suc n]) =
             chunkAt xs j @ take (500 * n) (drop (500 * Suc j) xs)"
    using Suc.IH [of "Suc j"] by simp
  also have "\<dots> = take 500 (drop (500 * j) xs) @ take (500 * n) (drop 500 (drop (500 * j) xs))"
    by (simp add: chunkAt_def add.commute)
  also have "\<dots> = take (500 + 500 * n) (drop (500 * j) xs)"
    by (simp add: take_add)
  finally show ?case by simp
qed

lemma concat_chunks: "concat (chunks xs) = xs"
proof -
  have "concat (chunks xs) = take (500 * ((length xs + 499) div 500)) xs"
    using concat_chunks_from [of xs 0 "(length xs + 499) div 500"] by (simp add: chunks_alt)
  moreover have "length xs \<le> 500 * ((length xs + 499) div 500)" by arith
  ultimately show ?thesis by simp
qed

lemma addRecords_recordingStore: "addRecords (recordingStore failAdd bad) = rec_addRecords failAdd"
  by (simp add: recordingStore_def)

text \<open>The insert loop against the recording store, up to the first rejected call.\<close>

lemma addBatches_recording_fail:
  assumes "length (addCalls t) = j" and "j \<le> k" and "500 * k < length recs"
      and "failAdd k" and "\<forall>j' < k. \<not> failAdd j'"
  shows "addBatches (recordingStore failAdd bad) recs (500 * j) t logs =
           (t\<lparr>addCalls := addCalls t @ map (chunkAt recs) [j ..< Suc k],
              addedBatches := addedBatches t @ map (chunkAt recs) [j ..< k]\<rparr>,
            logs @ map (addedMsg recs) [j ..< k] @ [LogAddFailed (Error ''rejected'')])"
  using assms
proof (induction "k - j" arbitrary: j t logs)
  case 0
  then have jk: "j = k" by simp
  with 0 show ?case
    by (subst addBatches.simps)
       (simp add: addRecords_recordingStore rec_addRecords_def chunkAt_def Let_def)
next
  case (Suc d)
  then have lt: "j < k" by simp
  then have nf: "\<not> failAdd j" using Suc.prems by simp
  have in_range: "500 * j < length recs" using lt Suc.prems by simp
  let ?t' = "t\<lparr>addCalls := addCalls t @ [chunkAt recs j],
                addedBatches := addedBatches t @ [chunkAt recs j]\<rparr>"
  have step: "addBatches (recordingStore failAdd bad) recs (500 * j) t logs =
              addBatches (recordingStore failAdd bad) recs (500 * Suc j) ?t'
                     (logs @ [addedMsg recs j])"
    using nf in_range Suc.prems(1)
    by (subst addBatches.simps)
       (simp add: addRecords_recordingStore rec_addRecords_def chunkAt_def addedMsg_def
          add.commute Let_def)
  have ih: "addBatches (recordingStore failAdd bad) recs (500 * Suc j) ?t'
                     (logs @ [addedMsg recs j]) =
            (?t'\<lparr>addCalls := addCalls ?t' @ map (chunkAt recs) [Suc j ..< Suc k],
                 addedBatches := addedBatches ?t' @ map (chunkAt recs) [Suc j ..< k]\<rparr>,
             (logs @ [addedMsg recs j]) @ map (addedMsg recs) [Suc j ..< k] @
               [LogAddFailed (Error ''rejected'')])"
    using Suc.hyps(2) lt Suc.prems
    by (intro Suc.hyps(1)) auto
  have u1: "[j ..< Suc k] = j # [Suc j ..< Suc k]" using lt by (simp add: upt_conv_Cons)
  have u2: "[j ..< k] = j # [Suc j ..< k]" using lt by (simp add: upt_conv_Cons)
  show ?case
    unfolding step ih u1 u2 by simp
qed

lemma addBatches_recording_ok:
  assumes "length (addCalls t) = j" and "500 * j \<le> length recs + 499"
      and "\<forall>j'. 500 * j' < length recs \<longrightarrow> \<not> failAdd j'"
  shows "addBatches (recordingStore failAdd bad) recs (500 * j) t logs =
           (t\<lparr>addCalls := addCalls t @ map (chunkAt recs) [j ..< (length recs + 499) div 500],
              addedBatches := addedBatches t @ map (chunkAt recs) [j ..< (length recs + 499) div 500]\<rparr>,
            logs @ map (addedMsg recs) [j ..< (length recs + 499) div 500] @
              [LogAddDone (length recs)])"
  using assms
proof (induction "(length recs + 499) div 500 - j" arbitrary: j t logs)
  case 0
  then have "\<not> 500 * j < length recs" by arith
  moreover from 0 have "[j ..< (length recs + 499) div 500] = []" by simp
  ultimately show ?case
    by (subst addBatches.simps) simp
next
  case (Suc d)
  then have in_range: "500 * j < length recs" by arith
  then have nf: "\<not> failAdd j" using Suc.prems by simp
  have lt: "j < (length recs + 499) div 500" using in_range by arith
  let ?t' = "t\<lparr>addCalls := addCalls t @ [chunkAt recs j],
                addedBatches := addedBatches t @ [chunkAt recs j]\<rparr>"
  have step: "addBatches (recordingStore failAdd bad) recs (500 * j) t logs =
              addBatches (recordingStore failAdd bad) recs (500 * Suc j) ?t'
                     (logs @ [addedMsg recs j])"
    using nf in_range Suc.prems(1)
    by (subst addBatches.simps)
       (simp add: addRecords_recordingStore rec_addRecords_def chunkAt_def addedMsg_def
          add.commute Let_def)
  have ih: "addBatches (recordingStore failAdd bad) recs (500 * Suc j) ?t'
                     (logs @ [addedMsg recs j]) =
            (?t'\<lparr>addCalls := addCalls ?t' @ map (chunkAt recs) [Suc j ..< (length recs + 499) div 500],
                 addedBatches := addedBatches ?t' @ map (chunkAt recs) [Suc j ..< (length recs + 499) div 500]\<rparr>,
             (logs @ [addedMsg recs j]) @ map (addedMsg recs) [Suc j ..< (length recs + 499) div 500] @
               [LogAddDone (length recs)])"
  proof (intro Suc.hyps(1))
    show "d = (length recs + 499) div 500 - Suc j" using Suc.hyps(2) by simp
    show "length (addCalls ?t') = Suc j" using Suc.prems(1) by simp
    show "500 * Suc j \<le> length recs + 499" using in_range by simp
    show "\<forall>j'. 500 * j' < length recs \<longrightarrow> \<not> failAdd j'" using Suc.prems(3) .
  qed
  have u1: "[j ..< (length recs + 499) div 500] = j # [Suc j ..< (length recs + 499) div 500]"
    using lt by (simp add: upt_conv_Cons)
  show ?case
    unfolding step ih u1 by simp
qed

lemma chunkAt_rows1200:
  "chunkAt rows1200 0 = replicate 500 Map.empty"
  "chunkAt rows1200 (Suc 0) = replicate 500 Map.empty"
  "chunkAt rows1200 2 = replicate 200 Map.empty"
  by (simp_all add: chunkAt_def rows1200_def)

lemma upt3: "[0 ..< 3] = [0, 1, 2]" "[0 ..< 2] = [0, Suc 0]"
  by (simp_all add: upt_conv_Cons)

text \<open>
  Claim C3, as stated, fails: the insert loop stands inside one \<open>try\<close>, so a rejected
  chunk ends the loop. With 1200 rows and the second call rejected, the first chunk is
  committed, the second is rejected, and the third is never passed to the datastore.
\<close>

theorem insert_chunks_counterexample:
  "map length (chunks rows1200) = [500, 500, 200] \<and>
   map length (addCalls (fst (addNewRecords (recordingStore failSecond noBadRow) rows1200
                                emptyLog []))) = [500, 500] \<and>
   map length (addedBatches (fst (addNewRecords (recordingStore failSecond noBadRow) rows1200
                                    emptyLog []))) = [500]"
proof -
  have n: "(length rows1200 + 499) div 500 = 3" by (simp add: rows1200_def)
  have c: "map length (chunks rows1200) = [500, 500, 200]"
    by (simp add: chunks_alt n upt3 chunkAt_rows1200)
  have "addBatches (recordingStore failSecond noBadRow) rows1200 (500 * 0) emptyLog [] =
          (emptyLog\<lparr>addCalls := addCalls emptyLog @ map (chunkAt rows1200) [0 ..< Suc 1],
                    addedBatches := addedBatches emptyLog @ map (chunkAt rows1200) [0 ..< 1]\<rparr>,
           [] @ map (addedMsg rows1200) [0 ..< 1] @ [LogAddFailed (Error ''rejected'')])"
    by (intro addBatches_recording_fail) (auto simp: emptyLog_def rows1200_def failSecond_def)
  then have "map length (addCalls (fst (addNewRecords (recordingStore failSecond noBadRow)
                 rows1200 emptyLog []))) = [500, 500] \<and>
             map length (addedBatches (fst (addNewRecords (recordingStore failSecond noBadRow)
                 rows1200 emptyLog []))) = [500]"
    using chunkAt_rows1200
    by (simp add: addNewRecords_def emptyLog_def upt3 rows1200_def)
  with c show ?thesis by blast
qed

text \<open>
  Claim C3, amended. The rows to insert are split into consecutive chunks of at
  least 1 and at most 500 rows, which are committed in order. When call \<open>k\<close> is the
  first that the datastore rejects, the chunks before \<open>k\<close> stay committed, the
  failure is logged, and no chunk after \<open>k\<close> is attempted. When no call is rejected,
  every chunk is committed.
\<close>

theorem insert_chunks_stop_at_first_failure:
  assumes "recordsToAdd \<noteq> []"
  shows "(\<forall>c \<in> set (chunks recordsToAdd). 0 < length c \<and> length c \<le> 500) \<and>
         concat (chunks recordsToAdd) = recordsToAdd \<and>
         (\<forall>k. k < length (chunks recordsToAdd) \<and> failAdd k \<and> (\<forall>j < k. \<not> failAdd j) \<longrightarrow>
            (case addNewRecords (recordingStore failAdd bad) recordsToAdd emptyLog [] of
               (t, logs) \<Rightarrow>
                 addCalls t = take (Suc k) (chunks recordsToAdd) \<and>
                 addedBatches t = take k (chunks recordsToAdd) \<and>
                 last logs = LogAddFailed (Error ''rejected''))) \<and>
         ((\<forall>k < length (chunks recordsToAdd). \<not> failAdd k) \<longrightarrow>
            (case addNewRecords (recordingStore failAdd bad) recordsToAdd emptyLog [] of
               (t, logs) \<Rightarrow>
                 addCalls t = chunks recordsToAdd \<and> addedBatches t = chunks recordsToAdd \<and>
                 last logs = LogAddDone (length recordsToAdd)))"
proof (intro conjI allI impI)
  show "\<forall>c \<in> set (chunks recordsToAdd). 0 < length c \<and> length c \<le> 500"
    using chunks_length by blast
  show "concat (chunks recordsToAdd) = recordsToAdd" by (rule concat_chunks)
next
  fix k
  assume k: "k < length (chunks recordsToAdd) \<and> failAdd k \<and> (\<forall>j < k. \<not> failAdd j)"
  then have r: "500 * k < length recordsToAdd" by (simp add: chunks_def chunk_in_range)
  have "addBatches (recordingStore failAdd bad) recordsToAdd (500 * 0) emptyLog [] =
          (emptyLog\<lparr>addCalls := addCalls emptyLog @ map (chunkAt recordsToAdd) [0 ..< Suc k],
                    addedBatches := addedBatches emptyLog @ map (chunkAt recordsToAdd) [0 ..< k]\<rparr>,
           [] @ map (addedMsg recordsToAdd) [0 ..< k] @ [LogAddFailed (Error ''rejected'')])"
    using k r by (intro addBatches_recording_fail) (auto simp: emptyLog_def)
  moreover have "take (Suc k) (chunks recordsToAdd) = map (chunkAt recordsToAdd) [0 ..< Suc k]"
    using k by (simp add: chunks_alt take_map take_upt del: upt_Suc)
  moreover have "take k (chunks recordsToAdd) = map (chunkAt recordsToAdd) [0 ..< k]"
    using k by (simp add: chunks_alt take_map take_upt)
  ultimately
  show "case addNewRecords (recordingStore failAdd bad) recordsToAdd emptyLog [] of
          (t, logs) \<Rightarrow>
            addCalls t = take (Suc k) (chunks recordsToAdd) \<and>
            addedBatches t = take k (chunks recordsToAdd) \<and>
            last logs = LogAddFailed (Error ''rejected'')"
    using assms by (simp add: addNewRecords_def emptyLog_def del: upt_Suc)
next
  assume nf: "\<forall>k < length (chunks recordsToAdd). \<not> failAdd k"
  then have nf': "\<forall>j'. 500 * j' < length recordsToAdd \<longrightarrow> \<not> failAdd j'"
    by (simp add: chunks_def chunk_in_range)
  have "addBatches (recordingStore failAdd bad) recordsToAdd (500 * 0) emptyLog [] =
          (emptyLog\<lparr>addCalls := addCalls emptyLog @
                       map (chunkAt recordsToAdd) [0 ..< (length recordsToAdd + 499) div 500],
                    addedBatches := addedBatches emptyLog @
                       map (chunkAt recordsToAdd) [0 ..< (length recordsToAdd + 499) div 500]\<rparr>,
           [] @ map (addedMsg recordsToAdd) [0 ..< (length recordsToAdd + 499) div 500] @
             [LogAddDone (length recordsToAdd)])"
    using nf' by (intro addBatches_recording_ok) (auto simp: emptyLog_def)
  then
  show "case addNewRecords (recordingStore failAdd bad) recordsToAdd emptyLog [] of
          (t, logs) \<Rightarrow>
            addCalls t = chunks recordsToAdd \<and> addedBatches t = chunks recordsToAdd \<and>
            last logs = LogAddDone (length recordsToAdd)"
    using assms by (simp add: addNewRecords_def emptyLog_def chunks_alt)
qed

theorem insert_chunks_stop_at_first_failure_witness:
  "case addNewRecords (recordingStore failSecond noBadRow) rows1200 emptyLog [] of
     (t, logs) \<Rightarrow>
       addCalls t = take 2 (chunks rows1200) \<and> addedBatches t = take 1 (chunks rows1200) \<and>
       last logs = LogAddFailed (Error ''rejected'')"
proof -
  have ne: "rows1200 \<noteq> []" by (simp add: rows1200_def)
  have n: "length (chunks rows1200) = 3" by (simp add: chunks_def rows1200_def)
  from insert_chunks_stop_at_first_failure [OF ne, of failSecond noBadRow] n
  show ?thesis by (auto simp: numeral_2_eq_2 failSecond_def)
qed

text \<open>
  Claim C7. The update loop of \<open>getVideosData\<close> has no fallback: with three updates of
  which the second is rejected by the datastore, the batch is rejected, the failure
  is logged and no update is applied. The final write of \<open>handleVideoText\<close>, given the
  same updates and the same datastore, falls back to single writes and applies the
  first and the third.
\<close>

theorem update_fallback_missing:
  "appliedUpdates (fst (updateExistingRecords (recordingStore neverFail badRow)
      [upd ''rec1'', upd ''rec2'', upd ''rec3''] emptyLog [])) = [] \<and>
   snd (updateExistingRecords (recordingStore neverFail badRow)
      [upd ''rec1'', upd ''rec2'', upd ''rec3''] emptyLog []) =
     [LogUpdateFailed (Error ''rejected'')] \<and>
   appliedUpdates (fst (writeTexts (recordingStore neverFail badRow)
      [upd ''rec1'', upd ''rec2'', upd ''rec3''] emptyLog)) = [upd ''rec1'', upd ''rec3'']"
  by (simp add: updateExistingRecords_def updateBatches.simps writeTexts_def recordingStore_def
        rec_setRecords_def rec_setRecord_def badRow_def upd_def emptyLog_def)

subsection \<open>The scan of the dedup index\<close>

lemma fetchAllRecords_pages:
  "pagesThenFailure ds table tok pages e \<Longrightarrow>
   fetchAllRecords ds table tok allRecords logs =
     Some (allRecords @ concat (map pageRecords pages),
           logs @ concat (map pageWarnings pages) @ [LogPageError e])"
proof (induction pages arbitrary: tok allRecords logs)
  case Nil
  then show ?case by (subst fetchAllRecords.simps) simp
next
  case (Cons page pages)
  from Cons.prems obtain response where
    r: "getRecords ds table 5000 tok = Inr response" "records response = fst page"
       "hasMore response" "pageToken response = snd page"
    and rest: "pagesThenFailure ds table (snd page) pages e"
    by (auto split: sum.splits)
  have a: "appendPage response allRecords = allRecords @ pageRecords page"
    using r(2) by (simp add: appendPage_def pageRecords_def split: option.splits)
  have l: "logPage response logs = logs @ pageWarnings page"
    using r(2) by (simp add: logPage_def pageWarnings_def split: option.splits)
  have "fetchAllRecords ds table tok allRecords logs =
        fetchAllRecords ds table (snd page) (allRecords @ pageRecords page)
          (logs @ pageWarnings page)"
    using r a l by (subst fetchAllRecords.simps) simp
  with Cons.IH [OF rest, of "allRecords @ pageRecords page" "logs @ pageWarnings page"]
  show ?case by simp
qed

lemma indexRecords_Cons:
  "indexRecords ds table fid (r # rs) m logs =
     indexRecords ds table fid rs (indexStep ds table fid m r) (logs @ cellErrors ds table fid r)"
  by (cases "getCellString ds table fid (recordId r)") (simp_all add: indexStep_def cellErrors_def)

lemma indexRecords_fold:
  "indexRecords ds table fid recs m logs =
     (foldl (indexStep ds table fid) m recs, logs @ concat (map (cellErrors ds table fid) recs))"
proof (induction recs arbitrary: m logs)
  case Nil
  then show ?case by simp
next
  case (Cons r rs)
  show ?case
    unfolding indexRecords_Cons Cons.IH by simp
qed

lemma indexStep_storedId:
  "indexStep ds table fid m r k =
     (if storedId ds table fid r = Some k then Some (recordId r) else m k)"
  by (auto simp: indexStep_def storedId_def cleanVideoId_def split: sum.splits)

lemma foldl_indexStep_last:
  "foldl (indexStep ds table fid) m rs k =
     (case find (\<lambda>r. storedId ds table fid r = Some k) (rev rs) of
        None \<Rightarrow> m k
      | Some r \<Rightarrow> Some (recordId r))"
proof (induction rs rule: rev_induct)
  case Nil
  then show ?case by simp
next
  case (snoc r rs)
  then show ?case by (simp add: indexStep_storedId)
qed

lemma indexRecords_last:
  "indexRecords ds table fid rs Map.empty logs =
     (lastIdWith ds table fid rs, logs @ concat (map (cellErrors ds table fid) rs))"
proof -
  have "foldl (indexStep ds table fid) Map.empty rs = lastIdWith ds table fid rs"
    by (rule ext) (simp add: foldl_indexStep_last lastIdWith_def split: option.splits)
  then show ?thesis by (simp add: indexRecords_fold)
qed

text \<open>
  Claim C9. When the scan is served some pages and the next call of \<open>getRecords\<close>
  fails, the scan ends with the records of all the pages served, in their order, and
  the failure is logged after the warnings of the pages without a \<open>records\<close> array.
  The index is built from exactly those records: a key is sent to the record id of
  the last of them that holds it, a record whose cell cannot be read is logged and
  passed over, and the reads of the other records go on.
\<close>

theorem scan_keeps_partial_index:
  assumes "pagesThenFailure ds table None pages e"
      and "fieldMap ColVideoId = Some fid" and "fid \<noteq> []"
  shows "fetchAllRecords ds table None [] [] =
           Some (concat (map pageRecords pages),
                 concat (map pageWarnings pages) @ [LogPageError e]) \<and>
         getExistingVideoIds ds table fieldMap =
           Some (lastIdWith ds table fid (concat (map pageRecords pages)),
                 concat (map pageWarnings pages) @ [LogPageError e] @
                 concat (map (cellErrors ds table fid) (concat (map pageRecords pages))))"
proof -
  have f: "fetchAllRecords ds table None [] [] =
             Some (concat (map pageRecords pages),
                   concat (map pageWarnings pages) @ [LogPageError e])"
    using fetchAllRecords_pages [OF assms(1), of "[]" "[]"] by simp
  then show ?thesis
    using assms(2,3) by (simp add: getExistingVideoIds_def indexRecords_last)
qed

lemma flaky_keys:
  "lastIdWith flakyStore () ''fldId'' (concat (map pageRecords flakyPages)) ''a1'' = Some ''rec3''"
  "lastIdWith flakyStore () ''fldId'' (concat (map pageRecords flakyPages)) ''b2'' = Some ''rec4''"
  "lastIdWith flakyStore () ''fldId'' (concat (map pageRecords flakyPages)) ''c3'' = None"
  by code_simp+

theorem scan_keeps_partial_index_witness:
  "fetchAllRecords flakyStore () None [] [] =
     Some ([\<lparr>recordId = ''rec1'', cellFields = Map.empty\<rparr>,
            \<lparr>recordId = ''rec2'', cellFields = Map.empty\<rparr>,
            \<lparr>recordId = ''rec3'', cellFields = Map.empty\<rparr>,
            \<lparr>recordId = ''rec4'', cellFields = Map.empty\<rparr>],
           [LogNoRecordsArray, LogPageError (Error ''timeout'')]) \<and>
   (\<exists>existingVideoIds.
      getExistingVideoIds flakyStore () fieldMapIdDuration =
        Some (existingVideoIds,
              [LogNoRecordsArray, LogPageError (Error ''timeout''),
               LogCellError ''rec2'' (Error ''unreadable'')]) \<and>
      existingVideoIds ''a1'' = Some ''rec3'' \<and> existingVideoIds ''b2'' = Some ''rec4'' \<and>
      existingVideoIds ''c3'' = None)"
proof -
  have a: "pagesThenFailure flakyStore () None flakyPages (Error ''timeout'')"
    by (simp add: flakyStore_def flakyPages_def)
  have c: "fieldMapIdDuration ColVideoId = Some ''fldId''" by (simp add: fieldMapIdDuration_def)
  have d: "''fldId'' \<noteq> []" by simp
  have p: "concat (map pageRecords flakyPages) =
             [\<lparr>recordId = ''rec1'', cellFields = Map.empty\<rparr>,
              \<lparr>recordId = ''rec2'', cellFields = Map.empty\<rparr>,
              \<lparr>recordId = ''rec3'', cellFields = Map.empty\<rparr>,
              \<lparr>recordId = ''rec4'', cellFields = Map.empty\<rparr>]"
    by (simp add: flakyPages_def pageRecords_def)
  have w: "concat (map pageWarnings flakyPages) = [LogNoRecordsArray]"
    by (simp add: flakyPages_def pageWarnings_def)
  have ce: "concat (map (cellErrors flakyStore () ''fldId'') (concat (map pageRecords flakyPages))) =
              [LogCellError ''rec2'' (Error ''unreadable'')]"
    unfolding p by (simp add: cellErrors_def flakyStore_def)
  from scan_keeps_partial_index [where fieldMap = fieldMapIdDuration, OF a c d]
  have "fetchAllRecords flakyStore () None [] [] =
           Some (concat (map pageRecords flakyPages), [LogNoRecordsArray, LogPageError (Error ''timeout'')]) \<and>
        getExistingVideoIds flakyStore () fieldMapIdDuration =
           Some (lastIdWith flakyStore () ''fldId'' (concat (map pageRecords flakyPages)),
                 [LogNoRecordsArray, LogPageError (Error ''timeout''),
                  LogCellError ''rec2'' (Error ''unreadable'')])"
    unfolding w ce by simp
  with flaky_keys show ?thesis unfolding p by blast
qed

subsection \<open>The sync engine on a table held in memory\<close>

lemma memStore_simps:
  "getRecords (memStore newId) = mem_getRecords"
  "getCellString (memStore newId) = mem_getCellString"
  "addRecords (memStore newId) = mem_addRecords newId"
  "setRecords (memStore newId) = mem_setRecords"
  "setRecord (memStore newId) = mem_setRecord"
  by (simp_all add: memStore_def)

lemma mem_fetch:
  "fetchAllRecords (memStore newId) t tok acc logs =
     Some (acc @ drop (tokenStart tok) (rows t), logs)"
proof (induction "length (rows t) - tokenStart tok" arbitrary: tok acc rule: less_induct)
  case less
  let ?start = "tokenStart tok"
  show ?case
  proof (cases "?start + 5000 < length (rows t)")
    case True
    have m: "length (rows t) - tokenStart (Some (?start + 5000)) < length (rows t) - ?start"
      using True by (simp add: tokenStart_def)
    have "fetchAllRecords (memStore newId) t tok acc logs =
          fetchAllRecords (memStore newId) t (Some (?start + 5000))
            (acc @ take 5000 (drop ?start (rows t))) logs"
      using True
      by (subst fetchAllRecords.simps)
         (simp add: memStore_simps mem_getRecords_def tokenStart_def appendPage_def logPage_def
            Let_def)
    also have "\<dots> = Some ((acc @ take 5000 (drop ?start (rows t))) @
                         drop (tokenStart (Some (?start + 5000))) (rows t), logs)"
      by (rule less.hyps [OF m])
    finally have f: "fetchAllRecords (memStore newId) t tok acc logs =
        Some ((acc @ take 5000 (drop ?start (rows t))) @
                drop (tokenStart (Some (?start + 5000))) (rows t), logs)" .
    have "drop (tokenStart (Some (?start + 5000))) (rows t) = drop 5000 (drop ?start (rows t))"
      by (simp add: tokenStart_def add.commute)
    then have e: "take 5000 (drop ?start (rows t)) @
                  drop (tokenStart (Some (?start + 5000))) (rows t) = drop ?start (rows t)"
      by (simp only: append_take_drop_id)
    show ?thesis
      unfolding f using e by simp
  next
    case False
    then show ?thesis
      by (subst fetchAllRecords.simps)
         (simp add: memStore_simps mem_getRecords_def tokenStart_def appendPage_def logPage_def
            Let_def)
  qed
qed

lemma mem_fetch_all: "fetchAllRecords (memStore newId) t None [] [] = Some (rows t, [])"
  by (simp add: mem_fetch tokenStart_def)

lemma find_distinct:
  "distinct (map recordId rs) \<Longrightarrow> r \<in> set rs \<Longrightarrow> find (\<lambda>x. recordId x = recordId r) rs = Some r"
proof (induction rs)
  case Nil
  then show ?case by simp
next
  case (Cons x xs)
  then show ?case by (auto simp: image_iff)
qed

lemma same_id_same_row:
  "distinct (map recordId rs) \<Longrightarrow> r \<in> set rs \<Longrightarrow> r' \<in> set rs \<Longrightarrow>
   recordId r = recordId r' \<Longrightarrow> r = r'"
  by (meson distinct_map inj_onD)

lemma mem_indexStep:
  assumes "distinct (map recordId (rows t))" and "r \<in> set (rows t)"
  shows "indexStep (memStore newId) t fid m r = sigStep m (sigOf fid r)"
  using find_distinct [OF assms]
  by (simp add: indexStep_def memStore_simps mem_getCellString_def sigStep_def sigOf_def cellOf_def)

lemma mem_cellErrors:
  assumes "distinct (map recordId (rows t))" and "r \<in> set (rows t)"
  shows "cellErrors (memStore newId) t fid r = []"
  using find_distinct [OF assms]
  by (simp add: cellErrors_def memStore_simps mem_getCellString_def)

lemma foldl_indexStep_mem:
  assumes "distinct (map recordId (rows t))" and "set rs \<subseteq> set (rows t)"
  shows "foldl (indexStep (memStore newId) t fid) m rs = foldl sigStep m (map (sigOf fid) rs)"
  using assms(2)
proof (induction rs arbitrary: m)
  case Nil
  then show ?case by simp
next
  case (Cons r rs)
  then show ?case by (simp add: mem_indexStep [OF assms(1)])
qed

lemma mem_index:
  assumes "distinct (map recordId (rows t))"
  shows "indexRecords (memStore newId) t fid (rows t) m logs =
           (foldl sigStep m (map (sigOf fid) (rows t)), logs)"
proof -
  have "concat (map (cellErrors (memStore newId) t fid) (rows t)) = []"
    using mem_cellErrors [OF assms] by (induction "rows t") auto
  then show ?thesis
    by (simp add: indexRecords_fold foldl_indexStep_mem [OF assms])
qed

lemma mem_getExistingVideoIds:
  assumes "distinct (map recordId (rows t))" and "fieldMap ColVideoId = Some fid" and "fid \<noteq> []"
  shows "getExistingVideoIds (memStore newId) t fieldMap =
           Some (foldl sigStep Map.empty (map (sigOf fid) (rows t)), [])"
  using assms by (simp add: getExistingVideoIds_def mem_fetch_all mem_index)

subsection \<open>The index as a function of the signatures\<close>






subsection \<open>The writers on the table held in memory\<close>














subsection \<open>Updates that keep the signatures\<close>




subsection \<open>Applying the same updates twice\<close>





subsection \<open>The rows that an insert creates\<close>


















lemma fieldMapIdDuration_id:
  "fieldMapIdDuration ColVideoId = Some ''fldId''"
  "\<forall>c. c \<noteq> ColVideoId \<longrightarrow> fieldMapIdDuration c \<noteq> Some ''fldId''"
  by (simp_all add: fieldMapIdDuration_def)





subsection \<open>Matching on the canonical id\<close>

lemma find_Some_member: "find P xs = Some x \<Longrightarrow> P x \<and> x \<in> set xs"
  by (induction xs) (auto split: if_splits)

lemma storedId_iff:
  "storedId ds table fid r = Some key \<longleftrightarrow>
   (\<exists>stored. getCellString ds table fid (recordId r) = Inr stored \<and> stored \<noteq> [] \<and>
      toLowerCase (trim stored) = key)"
  by (auto simp: storedId_def split: sum.splits)

text \<open>
  Claim C2, as amended. For the rows that the scan returns, with non-empty record
  ids, and an incoming record whose \<open>aweme_id\<close> is a string: the incoming record finds
  the last of the scanned rows whose cell reads as a non-empty string with the same
  trimmed, lower-cased form as the incoming id; it finds a row exactly when there is
  such a row; and it never finds a row whose cell is the empty string.
\<close>

theorem canonical_id_match:
  assumes "fieldMap ColVideoId = Some fid" and "fid \<noteq> []"
      and "fetchAllRecords ds table None [] [] = Some (allRecords, logs0)"
      and "\<forall>r \<in> set allRecords. recordId r \<noteq> []"
      and "aweme_id video = JStr incoming"
  shows "\<exists>existingVideoIds logs.
           getExistingVideoIds ds table fieldMap = Some (existingVideoIds, logs) \<and>
           lookupExisting existingVideoIds video =
             lastIdWith ds table fid allRecords (toLowerCase (trim incoming)) \<and>
           (lookupExisting existingVideoIds video \<noteq> None \<longleftrightarrow>
              (\<exists>r \<in> set allRecords. \<exists>stored.
                 getCellString ds table fid (recordId r) = Inr stored \<and> stored \<noteq> [] \<and>
                 toLowerCase (trim stored) = toLowerCase (trim incoming))) \<and>
           (\<forall>r \<in> set allRecords.
              getCellString ds table fid (recordId r) = Inr [] \<longrightarrow>
              lookupExisting existingVideoIds video \<noteq> Some (recordId r))"
proof -
  let ?key = "toLowerCase (trim incoming)"
  let ?idx = "lastIdWith ds table fid allRecords"
  let ?P = "\<lambda>r. storedId ds table fid r = Some ?key"
  have g: "getExistingVideoIds ds table fieldMap =
             Some (?idx, logs0 @ concat (map (cellErrors ds table fid) allRecords))"
    using assms(1,2,3) by (simp add: getExistingVideoIds_def indexRecords_last)
  have k: "cleanVideoId (js_String (aweme_id video)) = ?key"
    using assms(5) by (simp add: cleanVideoId_def)
  have ne: "rid \<noteq> []" if "?idx ?key = Some rid" for rid
  proof -
    from that obtain r where "find ?P (rev allRecords) = Some r" "rid = recordId r"
      by (auto simp: lastIdWith_def)
    then have "r \<in> set allRecords" using find_Some_member [of ?P "rev allRecords" r] by simp
    with assms(4) \<open>rid = recordId r\<close> show ?thesis by simp
  qed
  have l: "lookupExisting ?idx video = ?idx ?key"
    unfolding lookupExisting_def k using ne by (cases "?idx ?key") simp_all
  have e: "?idx ?key \<noteq> None \<longleftrightarrow>
           (\<exists>r \<in> set allRecords. \<exists>stored.
              getCellString ds table fid (recordId r) = Inr stored \<and> stored \<noteq> [] \<and>
              toLowerCase (trim stored) = ?key)"
  proof -
    have "?idx ?key \<noteq> None \<longleftrightarrow> (\<exists>r \<in> set allRecords. ?P r)"
      by (auto simp: lastIdWith_def find_None_iff)
    then show ?thesis by (simp add: storedId_iff)
  qed
  have n: "?idx ?key \<noteq> Some (recordId r)"
    if r: "getCellString ds table fid (recordId r) = Inr []" for r
  proof
    assume "?idx ?key = Some (recordId r)"
    then obtain r' where f: "find ?P (rev allRecords) = Some r'" and i: "recordId r' = recordId r"
      by (auto simp: lastIdWith_def)
    from f have "?P r'" using find_Some_member [of ?P "rev allRecords" r'] by simp
    with i r show False by (simp add: storedId_def)
  qed
  from g l e n show ?thesis by auto
qed

lemma threeRow_keys:
  "lastIdWith (memStore recId) threeRowTable ''fldId'' (rows threeRowTable)
     (toLowerCase (trim ''abc123'')) = Some ''recB''"
  "lastIdWith (memStore recId) threeRowTable ''fldId'' (rows threeRowTable)
     (toLowerCase (trim [])) = None"
  by code_simp+

text \<open>
  The stored strings \<open>'' ABC123 ''\<close> and \<open>''Abc123''\<close> and the incoming id \<open>''abc123''\<close>
  match, and the later row is the one found; the empty incoming id finds nothing.
\<close>

theorem canonical_id_match_witness:
  "(\<exists>existingVideoIds logs.
      getExistingVideoIds (memStore recId) threeRowTable fieldMapIdDuration =
        Some (existingVideoIds, logs) \<and>
      lookupExisting existingVideoIds videoLower = Some ''recB'') \<and>
   (\<exists>existingVideoIds logs.
      getExistingVideoIds (memStore recId) threeRowTable fieldMapIdDuration =
        Some (existingVideoIds, logs) \<and>
      lookupExisting existingVideoIds videoEmptyId = None)"
proof -
  have f: "fetchAllRecords (memStore recId) threeRowTable None [] [] =
             Some (rows threeRowTable, [])"
    by (rule mem_fetch_all)
  have n: "\<forall>r \<in> set (rows threeRowTable). recordId r \<noteq> []"
    by (simp add: threeRowTable_def)
  have ne: "''fldId'' \<noteq> []" by simp
  have a: "aweme_id videoLower = JStr ''abc123''" by (simp add: videoLower_def)
  have b: "aweme_id videoEmptyId = JStr []" by (simp add: videoEmptyId_def)
  from canonical_id_match [where fieldMap = fieldMapIdDuration and video = videoLower,
         OF fieldMapIdDuration_id(1) ne f n a]
  have x: "\<exists>existingVideoIds logs.
      getExistingVideoIds (memStore recId) threeRowTable fieldMapIdDuration =
        Some (existingVideoIds, logs) \<and>
      lookupExisting existingVideoIds videoLower = Some ''recB''"
    unfolding threeRow_keys by blast
  from canonical_id_match [where fieldMap = fieldMapIdDuration and video = videoEmptyId,
         OF fieldMapIdDuration_id(1) ne f n b]
  have y: "\<exists>existingVideoIds logs.
      getExistingVideoIds (memStore recId) threeRowTable fieldMapIdDuration =
        Some (existingVideoIds, logs) \<and>
      lookupExisting existingVideoIds videoEmptyId = None"
    unfolding threeRow_keys by blast
  from x y show ?thesis by blast
qed

text \<open>
  Claim C2 as worded fails for the empty stored string: the trimmed, lower-cased
  forms of the stored string and of an empty incoming id are equal, yet the scan
  leaves the record out of the index and the incoming record finds no record.
\<close>

theorem empty_stored_id_counterexample:
  "toLowerCase (trim []) = toLowerCase (trim (js_String (aweme_id videoEmptyId))) \<and>
   getExistingVideoIds (memStore recId) (oneRowTable []) fieldMapIdDuration =
     Some (Map.empty, []) \<and>
   lookupExisting Map.empty videoEmptyId = None"
proof -
  have a: "toLowerCase (trim []) = toLowerCase (trim (js_String (aweme_id videoEmptyId)))"
    by (simp add: videoEmptyId_def)
  have d: "distinct (map recordId (rows (oneRowTable [])))" by (simp add: oneRowTable_def)
  have "getExistingVideoIds (memStore recId) (oneRowTable []) fieldMapIdDuration =
          Some (Map.empty, [])"
    using mem_getExistingVideoIds [where fieldMap = fieldMapIdDuration,
            OF d fieldMapIdDuration_id(1), of recId]
    by (simp add: oneRowTable_def sigOf_def cellOf_def cellText_def sigStep_def)
  moreover have "lookupExisting Map.empty videoEmptyId = None"
    by (simp add: lookupExisting_def)
  ultimately show ?thesis using a by blast
qed

subsection \<open>The subscription scheduler\<close>

lemma pollWait_le_period: "pollWait period subRef t0 k \<le> t0 + period"
proof (induction period subRef t0 k rule: pollWait.induct)
  case (1 period subRef t0 k)
  show ?case
  proof (cases "period \<le> 5000 * k")
    case True
    then show ?thesis by (subst pollWait.simps) simp
  next
    case False
    show ?thesis
    proof (cases "subRef (t0 + 5000 * k)")
      case True
      with False "1.IH" show ?thesis by (subst pollWait.simps) simp
    next
      case f: False
      with False show ?thesis by (subst pollWait.simps) simp
    qed
  qed
qed

lemma pollWait_progress: "0 < period \<Longrightarrow> 0 < k \<Longrightarrow> t0 < pollWait period subRef t0 k"
proof (induction period subRef t0 k rule: pollWait.induct)
  case (1 period subRef t0 k)
  show ?case
  proof (cases "period \<le> 5000 * k")
    case True
    with "1.prems" show ?thesis by (subst pollWait.simps) simp
  next
    case False
    show ?thesis
    proof (cases "subRef (t0 + 5000 * k)")
      case True
      with False "1.IH" "1.prems" show ?thesis by (subst pollWait.simps) simp
    next
      case f: False
      with False "1.prems" show ?thesis by (subst pollWait.simps) simp
    qed
  qed
qed

lemma pollWait_after_cancel:
  "\<forall>t. c \<le> t \<and> t < c + 5000 \<longrightarrow> \<not> subRef t \<Longrightarrow> t0 + 5000 * k < c + 5000 \<Longrightarrow>
   pollWait period subRef t0 k < c + 5000"
proof (induction period subRef t0 k rule: pollWait.induct)
  case (1 period subRef t0 k)
  show ?case
  proof (cases "period \<le> 5000 * k")
    case True
    with "1.prems"(2) show ?thesis by (subst pollWait.simps) simp
  next
    case False
    show ?thesis
    proof (cases "subRef (t0 + 5000 * k)")
      case True
      with "1.prems" have "t0 + 5000 * k < c" by (meson not_le)
      then have "t0 + 5000 * Suc k < c + 5000" by simp
      from "1.IH" [OF False _ "1.prems"(1) this] True
      have "pollWait period subRef t0 (Suc k) < c + 5000" by simp
      with False True show ?thesis by (subst pollWait.simps) simp
    next
      case f: False
      with False "1.prems"(2) show ?thesis by (subst pollWait.simps) simp
    qed
  qed
qed

lemma pollWait_full_period:
  "\<forall>j. k \<le> j \<and> 5000 * j < period \<longrightarrow> subRef (t0 + 5000 * j) \<Longrightarrow>
   pollWait period subRef t0 k = t0 + period"
proof (induction period subRef t0 k rule: pollWait.induct)
  case (1 period subRef t0 k)
  show ?case
  proof (cases "period \<le> 5000 * k")
    case True
    then show ?thesis by (subst pollWait.simps) simp
  next
    case False
    with "1.prems" have s: "subRef (t0 + 5000 * k)" by simp
    from "1.prems" have "\<forall>j. Suc k \<le> j \<and> 5000 * j < period \<longrightarrow> subRef (t0 + 5000 * j)"
      by simp
    from "1.IH" [OF False _ this] s False show ?thesis by (subst pollWait.simps) simp
  qed
qed

lemma subscribeLoop_stops:
  assumes p: "0 < period" and c: "\<forall>t. c \<le> t \<and> t < c + 5000 \<longrightarrow> \<not> subRef t"
  shows "t \<le> c \<Longrightarrow>
         \<exists>ts. subscribeLoop period subRef t = Some ts \<and> \<not> subRef ts \<and> ts < c + 5000"
proof (induction "c - t" arbitrary: t rule: less_induct)
  case less
  show ?case
  proof (cases "subRef t")
    case False
    then have "subscribeLoop period subRef t = Some t"
      by (subst subscribeLoop.simps) simp
    with False less.prems show ?thesis by simp
  next
    case True
    have "\<not> subRef c" using c by simp
    with True less.prems have tc: "t < c" by (cases "t = c") auto
    let ?w = "pollWait period subRef t 1"
    have step: "subscribeLoop period subRef t = subscribeLoop period subRef ?w"
      using True by (subst subscribeLoop.simps) simp
    have prog: "t < ?w" using pollWait_progress [OF p, of 1 t subRef] by simp
    from tc have "t + 5000 * 1 < c + 5000" by simp
    from pollWait_after_cancel [OF c this] have w5: "?w < c + 5000" .
    show ?thesis
    proof (cases "?w \<le> c")
      case w: True
      with prog have "c - ?w < c - t" by simp
      from less.hyps [OF this w] show ?thesis unfolding step .
    next
      case w: False
      with c w5 have nf: "\<not> subRef ?w" by simp
      then have "subscribeLoop period subRef ?w = Some ?w"
        by (subst subscribeLoop.simps) simp
      with nf w5 show ?thesis unfolding step by simp
    qed
  qed
qed

lemma pollWait_ge: "t0 \<le> pollWait period subRef t0 k"
proof (induction period subRef t0 k rule: pollWait.induct)
  case (1 period subRef t0 k)
  show ?case
  proof (cases "period \<le> 5000 * k")
    case True
    then show ?thesis by (subst pollWait.simps) simp
  next
    case False
    show ?thesis
    proof (cases "subRef (t0 + 5000 * k)")
      case True
      with False "1.IH" show ?thesis by (subst pollWait.simps) simp
    next
      case f: False
      with False show ?thesis by (subst pollWait.simps) simp
    qed
  qed
qed

lemma subscribeLoop_flag:
  assumes "subscribeLoop period subRef t = Some ts"
  shows "\<not> subRef ts"
proof (rule subscribeLoop.raw_induct
         [where P = "\<lambda>p f t y. \<not> f y" and period = period and subRef = subRef and t = t
            and y = ts])
  fix loop :: "nat \<Rightarrow> (nat \<Rightarrow> bool) \<Rightarrow> nat \<Rightarrow> nat option" and p f t y
  assume IH: "\<And>p f t y. loop p f t = Some y \<Longrightarrow> \<not> f y"
     and s: "(if f t then loop p f (pollWait p f t 1) else Some t) = Some y"
  show "\<not> f y"
  proof (cases "f t")
    case True
    with s have "loop p f (pollWait p f t 1) = Some y" by simp
    then show ?thesis by (rule IH)
  next
    case False
    with s show ?thesis by simp
  qed
next
  show "subscribeLoop period subRef t = Some ts" by (rule assms)
qed

lemma subscribeLoop_ge:
  assumes "subscribeLoop period subRef t = Some ts"
  shows "t \<le> ts"
proof (rule subscribeLoop.raw_induct
         [where P = "\<lambda>p f t y. t \<le> y" and period = period and subRef = subRef and t = t
            and y = ts])
  fix loop :: "nat \<Rightarrow> (nat \<Rightarrow> bool) \<Rightarrow> nat \<Rightarrow> nat option" and p f t y
  assume IH: "\<And>p f t y. loop p f t = Some y \<Longrightarrow> t \<le> y"
     and s: "(if f t then loop p f (pollWait p f t 1) else Some t) = Some y"
  show "t \<le> y"
  proof (cases "f t")
    case True
    with s have "loop p f (pollWait p f t 1) = Some y" by simp
    then have "pollWait p f t 1 \<le> y" by (rule IH)
    with pollWait_ge [of t p f 1] show ?thesis by simp
  next
    case False
    with s show ?thesis by simp
  qed
next
  show "subscribeLoop period subRef t = Some ts" by (rule assms)
qed

text \<open>
  Claim C8 as worded fails when a new subscription sets the flag again before the
  next poll: with a period of twelve hours, a cancellation 7000 ms after the start
  and the flag set again at 8000 ms, the flag is cleared at the instant of the
  cancellation, yet the wait in progress lasts the full period and the loop is never
  left.
\<close>

theorem resubscription_hides_cancellation:
  "\<not> resubscribedAt8000 7000 \<and>
   pollWait 43200000 resubscribedAt8000 0 1 = 43200000 \<and>
   subscribeLoop 43200000 resubscribedAt8000 0 = None"
proof -
  have a: "\<not> resubscribedAt8000 7000" by (simp add: resubscribedAt8000_def)
  have p: "resubscribedAt8000 (0 + 5000 * j)" if j: "1 \<le> j" for j
  proof (cases "j = 1")
    case True
    then show ?thesis by (simp add: resubscribedAt8000_def)
  next
    case False
    with j have "2 \<le> j" by simp
    then have "8000 \<le> 5000 * j" by linarith
    then show ?thesis by (simp add: resubscribedAt8000_def)
  qed
  then have "\<forall>j. 1 \<le> j \<and> 5000 * j < 43200000 \<longrightarrow> resubscribedAt8000 (0 + 5000 * j)"
    by blast
  then have b: "pollWait 43200000 resubscribedAt8000 0 1 = 0 + 43200000"
    by (rule pollWait_full_period)
  have c: "subscribeLoop 43200000 resubscribedAt8000 0 = None"
  proof (cases "subscribeLoop 43200000 resubscribedAt8000 0")
    case None
    then show ?thesis .
  next
    case (Some ts)
    have "subscribeLoop 43200000 resubscribedAt8000 0 =
          subscribeLoop 43200000 resubscribedAt8000 43200000"
      using b by (subst subscribeLoop.simps) (simp add: resubscribedAt8000_def)
    with Some have s: "subscribeLoop 43200000 resubscribedAt8000 43200000 = Some ts" by simp
    from subscribeLoop_ge [OF s] subscribeLoop_flag [OF s] have False
      by (simp add: resubscribedAt8000_def)
    then show ?thesis ..
  qed
  from a b c show ?thesis by simp
qed

text \<open>
  Claim C8, as amended. A loop that reads a cleared flag at its head is left at once;
  a wait never lasts longer than the period; and when the period is positive and the
  flag is cleared at an instant \<open>c\<close> not before the start and is not set again within
  5000 ms, the loop is left at an instant \<open>ts\<close> with the flag cleared and
  \<open>ts < c + 5000\<close>, less than one polling interval after the cancellation, whatever
  the flag does later.
\<close>

theorem cancellation_within_one_poll:
  "(\<not> subRef t0 \<longrightarrow> subscribeLoop period subRef t0 = Some t0) \<and>
   (subRef t0 \<longrightarrow> pollWait period subRef t0 1 \<le> t0 + period) \<and>
   (0 < period \<and> t0 \<le> c \<and> (\<forall>t. c \<le> t \<and> t < c + 5000 \<longrightarrow> \<not> subRef t) \<longrightarrow>
      (\<exists>ts. subscribeLoop period subRef t0 = Some ts \<and> \<not> subRef ts \<and> ts < c + 5000))"
proof (intro conjI impI)
  assume "\<not> subRef t0"
  then show "subscribeLoop period subRef t0 = Some t0"
    by (subst subscribeLoop.simps) simp
next
  show "pollWait period subRef t0 1 \<le> t0 + period" by (rule pollWait_le_period)
next
  assume a: "0 < period \<and> t0 \<le> c \<and> (\<forall>t. c \<le> t \<and> t < c + 5000 \<longrightarrow> \<not> subRef t)"
  then show "\<exists>ts. subscribeLoop period subRef t0 = Some ts \<and> \<not> subRef ts \<and> ts < c + 5000"
    by (intro subscribeLoop_stops) auto
qed

text \<open>
  A period of twelve hours, cancelled 7000 ms after the start and subscribed again at
  20000 ms: the loop is left before 12000 ms.
\<close>

theorem cancellation_within_one_poll_witness:
  "\<exists>ts. subscribeLoop 43200000 resubscribedAt20000 0 = Some ts \<and>
        \<not> resubscribedAt20000 ts \<and> ts < 7000 + 5000"
proof -
  have h: "(0::nat) < 43200000 \<and> (0::nat) \<le> 7000 \<and>
           (\<forall>t. 7000 \<le> t \<and> t < 7000 + 5000 \<longrightarrow> \<not> resubscribedAt20000 t)"
    by (simp add: resubscribedAt20000_def)
  from cancellation_within_one_poll [of resubscribedAt20000 0 43200000 7000]
  have "0 < (43200000::nat) \<and> (0::nat) \<le> 7000 \<and>
        (\<forall>t. 7000 \<le> t \<and> t < 7000 + 5000 \<longrightarrow> \<not> resubscribedAt20000 t) \<longrightarrow>
        (\<exists>ts. subscribeLoop 43200000 resubscribedAt20000 0 = Some ts \<and>
              \<not> resubscribedAt20000 ts \<and> ts < 7000 + 5000)"
    by (elim conjE)
  from mp [OF this h] show ?thesis .
qed

end
